theory Spec2Isabelle
  imports Main "HOL-Library.Word" "HOL-Library.Monad_Syntax"
begin

unbundle bit_operations_syntax

section \<open>The libusb backend of HIDAPI (src/hidapi/libusb/hid.c)\<close>

text \<open>
  A shallow embedding of the functions of \<^verbatim>\<open>hid.c\<close> that parse the report
  descriptor, queue and hand out input reports, write output reports, initialise Xbox
  controllers and close a device.

  Conventions. A C byte buffer is a list of bytes. A buffer a caller passes with its
  length (\<^verbatim>\<open>hid_read_timeout\<close>, \<^verbatim>\<open>hid_write\<close>, \<^verbatim>\<open>return_data\<close>) is the
  list of that many bytes; where the source checks indices against the length argument
  (\<^verbatim>\<open>get_bytes\<close>, \<^verbatim>\<open>get_usage\<close>) the length stays an argument of its own. Every
  array read of the parser is a \<open>read_at\<close> in the model, whose value is \<open>None\<close> when
  the index is not inside the buffer, so that an out-of-bounds read is a visible result of
  the model. Calls of the USB library and of the thread primitives are the environment:
  their results are arguments of the model and the calls made are part of its result.
  Values of type \<^verbatim>\<open>size_t\<close> and the loop counters are natural numbers: the
  descriptor buffers have at most \<open>HID_API_MAX_REPORT_DESCRIPTOR_SIZE\<close> bytes and the
  counters stay below the size plus 258, far from the range of the C types. Values the
  source narrows (\<^verbatim>\<open>uint32_t\<close> to \<^verbatim>\<open>unsigned short\<close>,
  \<^verbatim>\<open>size_t\<close> to \<^verbatim>\<open>int\<close> or \<^verbatim>\<open>uint16_t\<close>) are words, and
  the narrowing is written out.
\<close>

type_synonym byte = "8 word"

subsection \<open>Report descriptor parser: \<^verbatim>\<open>get_bytes\<close>, \<^verbatim>\<open>get_usage\<close>\<close>

text \<open>\<^verbatim>\<open>rpt[k]\<close>: the byte at index \<open>k\<close>, or \<open>None\<close> for a read outside the buffer.\<close>

definition read_at :: "byte list \<Rightarrow> nat \<Rightarrow> byte option" where
  "read_at rpt k = (if k < length rpt then Some (rpt ! k) else None)"

text \<open>
  \<^verbatim>\<open>static uint32_t get_bytes(uint8_t *rpt, size_t len, size_t num_bytes, size_t cur)\<close>
  (lines 185-207). The bytes are promoted and combined in 32-bit arithmetic.
\<close>

definition get_bytes :: "byte list \<Rightarrow> nat \<Rightarrow> nat \<Rightarrow> nat \<Rightarrow> 32 word option" where
  "get_bytes rpt len num_bytes cur =
     (if cur + num_bytes \<ge> len then Some 0
      else if num_bytes = 0 then Some 0
      else if num_bytes = 1 then
        do { b1 \<leftarrow> read_at rpt (cur + 1); Some (ucast b1) }
      else if num_bytes = 2 then
        do { b2 \<leftarrow> read_at rpt (cur + 2);
             b1 \<leftarrow> read_at rpt (cur + 1);
             Some (ucast b2 * 256 + ucast b1) }
      else if num_bytes = 4 then
        do { b4 \<leftarrow> read_at rpt (cur + 4);
             b3 \<leftarrow> read_at rpt (cur + 3);
             b2 \<leftarrow> read_at rpt (cur + 2);
             b1 \<leftarrow> read_at rpt (cur + 1);
             Some (ucast b4 * 0x01000000 + ucast b3 * 0x00010000 +
                   ucast b2 * 0x00000100 + ucast b1 * 0x00000001) }
      else Some 0)"

text \<open>
  The variables \<^verbatim>\<open>get_usage\<close> works on: the two output locations
  \<^verbatim>\<open>*usage_page\<close> and \<^verbatim>\<open>*usage\<close> (unsigned short) and the two flags.
\<close>

record usage_vars =
  usage_page :: "16 word"
  usage :: "16 word"
  usage_page_found :: bool
  usage_found :: bool

text \<open>
  Lines 227-260 of the loop body: the length of the data section of the item whose key
  byte is \<open>key\<close>. A Long Item reads its length byte \<^verbatim>\<open>report_descriptor[i+1]\<close> when
  \<open>i + 1 < size\<close> and takes 0 otherwise; a Short Item takes it from the size code.
\<close>

definition item_data_len :: "byte list \<Rightarrow> nat \<Rightarrow> nat \<Rightarrow> byte \<Rightarrow> nat option" where
  "item_data_len report_descriptor sz i key =
     (if key AND 0xf0 = 0xf0 then
        (if i + 1 < sz then
           do { l \<leftarrow> read_at report_descriptor (i + 1); Some (unat l) }
         else Some 0)
      else
        (let size_code = key AND 0x3 in
         if size_code = 0 \<or> size_code = 1 \<or> size_code = 2 then Some (unat size_code)
         else if size_code = 3 then Some 4
         else Some 0))"

definition item_key_size :: "byte \<Rightarrow> nat" where
  "item_key_size key = (if key AND 0xf0 = 0xf0 then 3 else 1)"

text \<open>
  Lines 262-279: what a Usage Page item (\<open>key_cmd = 0x4\<close>) and a Usage item
  (\<open>key_cmd = 0x8\<close>) store. The assignments narrow the 32-bit result of
  \<^verbatim>\<open>get_bytes\<close> to \<^verbatim>\<open>unsigned short\<close>.
\<close>

definition scan_usage_page ::
    "byte list \<Rightarrow> nat \<Rightarrow> nat \<Rightarrow> byte \<Rightarrow> nat \<Rightarrow> usage_vars \<Rightarrow> usage_vars option" where
  "scan_usage_page report_descriptor sz i key_cmd data_len v =
     (if key_cmd = 0x4 then
        do { p \<leftarrow> get_bytes report_descriptor sz data_len i;
             Some (v\<lparr>usage_page := ucast p, usage_page_found := True\<rparr>) }
      else Some v)"

definition scan_usage ::
    "byte list \<Rightarrow> nat \<Rightarrow> nat \<Rightarrow> byte \<Rightarrow> nat \<Rightarrow> usage_vars \<Rightarrow> usage_vars option" where
  "scan_usage report_descriptor sz i key_cmd data_len v =
     (if key_cmd = 0x8 then
        (if data_len = 4 then
           do { p \<leftarrow> get_bytes report_descriptor sz 2 (i + 2);
                u \<leftarrow> get_bytes report_descriptor sz 2 i;
                Some (v\<lparr>usage_page := ucast p, usage_page_found := True,
                        usage := ucast u, usage_found := True\<rparr>) }
         else
           do { u \<leftarrow> get_bytes report_descriptor sz data_len i;
                Some (v\<lparr>usage := ucast u, usage_found := True\<rparr>) })
      else Some v)"

text \<open>
  The body of one iteration up to the test of the two flags: the variables after the item
  at offset \<open>i\<close> has been looked at, with the item's data length.
\<close>

definition scan_item ::
    "byte list \<Rightarrow> nat \<Rightarrow> nat \<Rightarrow> usage_vars \<Rightarrow> (byte \<times> nat \<times> usage_vars) option" where
  "scan_item report_descriptor sz i v =
     do { key \<leftarrow> read_at report_descriptor i;
          data_len \<leftarrow> item_data_len report_descriptor sz i key;
          v1 \<leftarrow> scan_usage_page report_descriptor sz i (key AND 0xfc) data_len v;
          v2 \<leftarrow> scan_usage report_descriptor sz i (key AND 0xfc) data_len v1;
          Some (key, data_len, v2) }"

text \<open>
  The loop \<^verbatim>\<open>while (i < size)\<close> of \<^verbatim>\<open>get_usage\<close> (lines 221-288). The result
  is the return value (0 on success, -1 on failure) with the final variables, or
  \<open>None\<close> when a read left the buffer.
\<close>

function get_usage_loop ::
    "byte list \<Rightarrow> nat \<Rightarrow> nat \<Rightarrow> usage_vars \<Rightarrow> (int \<times> usage_vars) option" where
  "get_usage_loop report_descriptor sz i v =
     (if i < sz then
        (case scan_item report_descriptor sz i v of
           None \<Rightarrow> None
         | Some (key, data_len, v') \<Rightarrow>
             if usage_page_found v' \<and> usage_found v' then Some (0, v')
             else get_usage_loop report_descriptor sz (i + data_len + item_key_size key) v')
      else Some (- 1, v))"
  by pat_completeness auto
termination
  by (relation "measure (\<lambda>(rpt, sz, i, v). sz - i)") (auto simp: item_key_size_def)

declare get_usage_loop.simps [simp del]

text \<open>
  \<^verbatim>\<open>static int get_usage(uint8_t *report_descriptor, size_t size,
  unsigned short *usage_page, unsigned short *usage)\<close> (lines 213-289). The arguments
  \<open>page0\<close> and \<open>usage0\<close> are what the two output locations hold at the call; the result
  is the return value with what they hold afterwards.
\<close>

definition get_usage ::
    "byte list \<Rightarrow> nat \<Rightarrow> 16 word \<Rightarrow> 16 word \<Rightarrow> (int \<times> 16 word \<times> 16 word) option" where
  "get_usage report_descriptor sz page0 usage0 =
     do { (r, v) \<leftarrow> get_usage_loop report_descriptor sz 0
            \<lparr>usage_page = page0, usage = usage0,
             usage_page_found = False, usage_found = False\<rparr>;
          Some (r, usage_page v, usage v) }"

text \<open>
  \<^verbatim>\<open>fill_device_info_usage\<close> (lines 660-674). \<open>res\<close> and \<open>hid_report_descriptor\<close>
  are what \<^verbatim>\<open>hid_get_report_descriptor_libusb\<close> returned and stored (a transfer of the
  USB library); the result is the pair written to \<^verbatim>\<open>cur_dev->usage_page\<close> and
  \<^verbatim>\<open>cur_dev->usage\<close>. The return value of \<^verbatim>\<open>get_usage\<close> is not looked at.
\<close>

definition fill_device_info_usage :: "int \<Rightarrow> byte list \<Rightarrow> (16 word \<times> 16 word) option" where
  "fill_device_info_usage res hid_report_descriptor =
     (if res \<ge> 0 then
        do { (r, page, usage) \<leftarrow> get_usage hid_report_descriptor (nat res) 0 0;
             Some (page, usage) }
      else Some (0, 0))"


subsection \<open>The device and its queue of input reports\<close>

text \<open>
  \<^verbatim>\<open>struct input_report\<close> (lines 88-92) is a buffer \<^verbatim>\<open>data\<close> of \<^verbatim>\<open>len\<close>
  bytes and a \<^verbatim>\<open>next\<close> pointer: one report is the list of its bytes (its length is
  \<^verbatim>\<open>len\<close>), and the linked list \<^verbatim>\<open>dev->input_reports\<close> is the list of the
  reports, oldest first.
\<close>

type_synonym input_report = "byte list"

text \<open>
  The fields of \<^verbatim>\<open>struct hid_device_\<close> (lines 95-141) the modelled functions use.
  The \<^verbatim>\<open>int\<close> fields that hold a truth value are booleans.
\<close>

record hid_device =
  interface :: int
  output_endpoint :: int
  blocking :: bool
  shutdown_thread :: bool
  transfer_loop_finished :: bool
  skip_output_report_id :: bool
  no_skip_output_report_id :: bool
  no_output_reports_on_intr_ep :: bool
  input_reports :: "input_report list"
  is_driver_detached :: bool

text \<open>The conversion \<^verbatim>\<open>(int) len\<close> of a \<^verbatim>\<open>size_t\<close> to a 32-bit \<^verbatim>\<open>int\<close>.\<close>

definition int_of_size_t :: "nat \<Rightarrow> int" where
  "int_of_size_t n = sint (word_of_nat n :: 32 word)"

text \<open>
  \<^verbatim>\<open>static int return_data(hid_device *dev, unsigned char *data, size_t length)\<close>
  (lines 1647-1659). \<open>data\<close> is the caller's buffer, of \<^verbatim>\<open>length\<close> bytes (the
  call \<^verbatim>\<open>return_data(dev, NULL, 0)\<close> passes the empty buffer). The result is the
  return value, the caller's buffer after the \<^verbatim>\<open>memcpy\<close>, the device, and the report
  that was freed; it is \<open>None\<close> when \<^verbatim>\<open>dev->input_reports\<close> is \<^verbatim>\<open>NULL\<close>,
  which the source dereferences.
\<close>

definition return_data ::
    "hid_device \<Rightarrow> byte list \<Rightarrow> (int \<times> byte list \<times> hid_device \<times> input_report) option" where
  "return_data dev data =
     (case input_reports dev of
        [] \<Rightarrow> None
      | rpt # next \<Rightarrow>
          let len = (if length data < length rpt then length data else length rpt)
          in Some (int_of_size_t len,
                   (if len > 0 then take len rpt @ drop len data else data),
                   dev\<lparr>input_reports := next\<rparr>,
                   rpt))"

subsection \<open>The read callback of the background thread\<close>

text \<open>The values of \<^verbatim>\<open>enum libusb_transfer_status\<close> (a declaration of libusb).\<close>

datatype libusb_transfer_status =
    LIBUSB_TRANSFER_COMPLETED
  | LIBUSB_TRANSFER_ERROR
  | LIBUSB_TRANSFER_TIMED_OUT
  | LIBUSB_TRANSFER_CANCELLED
  | LIBUSB_TRANSFER_STALL
  | LIBUSB_TRANSFER_NO_DEVICE
  | LIBUSB_TRANSFER_OVERFLOW

text \<open>
  Lines 1137-1142: \<^verbatim>\<open>num_queued\<close> after the walk from the head of a non-empty
  list to its last node, one increment for each \<^verbatim>\<open>next\<close> pointer followed.
\<close>

fun num_queued :: "input_report list \<Rightarrow> nat" where
  "num_queued (cur # next # rest) = Suc (num_queued (next # rest))"
| "num_queued _ = 0"

text \<open>
  Lines 1119-1153, the branch for a completed transfer, between the lock and the unlock
  of the mutex. \<open>received\<close> is the first \<^verbatim>\<open>transfer->actual_length\<close> bytes of
  \<^verbatim>\<open>transfer->buffer\<close>, which become the new report.
\<close>

definition queue_report :: "hid_device \<Rightarrow> byte list \<Rightarrow> hid_device option" where
  "queue_report dev received =
     (let rpt = received in
      if input_reports dev = [] then Some (dev\<lparr>input_reports := [rpt]\<rparr>)
      else
        let n = num_queued (input_reports dev);
            dev' = dev\<lparr>input_reports := input_reports dev @ [rpt]\<rparr>
        in if n > 30 then
             do { (r, data, dev'', freed) \<leftarrow> return_data dev' []; Some dev'' }
           else Some dev')"

text \<open>
  \<^verbatim>\<open>static void read_callback(struct libusb_transfer *transfer)\<close> (lines 1114-1179).
  \<open>status\<close> is \<^verbatim>\<open>transfer->status\<close> and \<open>submit_res\<close> what
  \<^verbatim>\<open>libusb_submit_transfer\<close> returns if the transfer is submitted again.
\<close>

definition read_callback ::
    "hid_device \<Rightarrow> libusb_transfer_status \<Rightarrow> byte list \<Rightarrow> int \<Rightarrow> hid_device option" where
  "read_callback dev status received submit_res =
     do { dev1 \<leftarrow>
            (if status = LIBUSB_TRANSFER_COMPLETED then queue_report dev received
             else if status = LIBUSB_TRANSFER_CANCELLED then Some (dev\<lparr>shutdown_thread := True\<rparr>)
             else if status = LIBUSB_TRANSFER_NO_DEVICE then Some (dev\<lparr>shutdown_thread := True\<rparr>)
             else if status = LIBUSB_TRANSFER_TIMED_OUT then Some dev
             else Some dev);
          if shutdown_thread dev1 then Some (dev1\<lparr>transfer_loop_finished := True\<rparr>)
          else if submit_res \<noteq> 0 then
            Some (dev1\<lparr>shutdown_thread := True, transfer_loop_finished := True\<rparr>)
          else Some dev1 }"

subsection \<open>Reading: \<^verbatim>\<open>hid_read_timeout\<close>\<close>

text \<open>
  While a reader sleeps in \<^verbatim>\<open>hidapi_thread_cond_wait\<close> or
  \<^verbatim>\<open>hidapi_thread_cond_timedwait\<close> the mutex is released and the other threads run.
  What they do to the device is a list of events: the read thread runs
  \<^verbatim>\<open>read_callback\<close> for a finished transfer, or \<^verbatim>\<open>shutdown_thread\<close> is set
  (by \<^verbatim>\<open>read_thread\<close> after a fatal error of \<^verbatim>\<open>libusb_handle_events\<close>, line
  1225, or by \<^verbatim>\<open>hid_close\<close>, line 1860).
\<close>

datatype bg_event =
    Transfer_done libusb_transfer_status "byte list" int
  | Shutdown_set

fun bg_step :: "bg_event \<Rightarrow> hid_device \<Rightarrow> hid_device option" where
  "bg_step (Transfer_done status received submit_res) dev =
     read_callback dev status received submit_res"
| "bg_step Shutdown_set dev = Some (dev\<lparr>shutdown_thread := True\<rparr>)"

fun background :: "bg_event list \<Rightarrow> hid_device \<Rightarrow> hid_device option" where
  "background [] dev = Some dev"
| "background (e # es) dev = do { dev' \<leftarrow> bg_step e dev; background es dev' }"

text \<open>
  What \<^verbatim>\<open>hidapi_thread_cond_timedwait\<close> returns, as the source tells it apart: 0,
  \<^verbatim>\<open>HIDAPI_THREAD_TIMED_OUT\<close> (a non-zero macro of the thread header), or another
  value. \<^verbatim>\<open>hidapi_thread_cond_wait\<close> is called as a statement; its wake-ups carry a
  value all the same, which the model does not look at.
\<close>

datatype wait_result = WAIT_OK | WAIT_TIMED_OUT | WAIT_ERROR

text \<open>One wake-up of a waiting reader: what the wait returns and what happened meanwhile.\<close>

datatype wake = Wake (wait_res: wait_result) (events: "bg_event list")

text \<open>
  How a call of \<^verbatim>\<open>hid_read_timeout\<close> ends: the return value, the caller's buffer, the
  device, the reports freed, and the wake-ups of the environment it has not used.
\<close>

record read_outcome =
  bytes_read :: int
  buffer :: "byte list"
  dev_after :: hid_device
  freed :: "input_report list"
  wakes_left :: "wake list"

text \<open>
  A call returns, is still blocked in a wait when the recorded wake-ups are used up, or
  has dereferenced a null pointer.
\<close>

datatype read_result = Returned read_outcome | Blocked | Null_dereference

text \<open>\<^verbatim>\<open>bytes_read = return_data(dev, data, length)\<close> followed by the return.\<close>

definition deliver :: "hid_device \<Rightarrow> byte list \<Rightarrow> wake list \<Rightarrow> read_result" where
  "deliver dev data ws =
     (case return_data dev data of
        None \<Rightarrow> Null_dereference
      | Some (n, data', dev', rpt) \<Rightarrow>
          Returned \<lparr>bytes_read = n, buffer = data', dev_after = dev',
                    freed = [rpt], wakes_left = ws\<rparr>)"

text \<open>The return of \<open>r\<close> with no report consumed.\<close>

definition no_data :: "int \<Rightarrow> hid_device \<Rightarrow> byte list \<Rightarrow> wake list \<Rightarrow> read_result" where
  "no_data r dev data ws =
     Returned \<lparr>bytes_read = r, buffer = data, dev_after = dev, freed = [], wakes_left = ws\<rparr>"

text \<open>
  Lines 1699-1707, the blocking mode: the loop around \<^verbatim>\<open>hidapi_thread_cond_wait\<close>
  and the test after it; \<^verbatim>\<open>bytes_read\<close> is still -1 when no report is queued.
\<close>

fun blocking_wait :: "hid_device \<Rightarrow> byte list \<Rightarrow> wake list \<Rightarrow> read_result" where
  "blocking_wait dev data ws =
     (if input_reports dev = [] \<and> \<not> shutdown_thread dev then
        (case ws of
           [] \<Rightarrow> Blocked
         | w # ws' \<Rightarrow>
             (case background (events w) dev of
                None \<Rightarrow> Null_dereference
              | Some dev' \<Rightarrow> blocking_wait dev' data ws'))
      else if input_reports dev \<noteq> [] then deliver dev data ws
      else no_data (- 1) dev data ws)"

declare blocking_wait.simps [simp del]

text \<open>
  Lines 1708-1738, the mode with a timeout: the loop around
  \<^verbatim>\<open>hidapi_thread_cond_timedwait\<close>. When the loop ends by its condition,
  \<^verbatim>\<open>bytes_read\<close> is still -1.
\<close>

fun timed_wait :: "hid_device \<Rightarrow> byte list \<Rightarrow> wake list \<Rightarrow> read_result" where
  "timed_wait dev data ws =
     (if input_reports dev = [] \<and> \<not> shutdown_thread dev then
        (case ws of
           [] \<Rightarrow> Blocked
         | w # ws' \<Rightarrow>
             (case background (events w) dev of
                None \<Rightarrow> Null_dereference
              | Some dev' \<Rightarrow>
                  if wait_res w = WAIT_OK then
                    (if input_reports dev' \<noteq> [] then deliver dev' data ws'
                     else timed_wait dev' data ws')
                  else if wait_res w = WAIT_TIMED_OUT then no_data 0 dev' data ws'
                  else no_data (- 1) dev' data ws'))
      else no_data (- 1) dev data ws)"

declare timed_wait.simps [simp del]

text \<open>
  \<^verbatim>\<open>int hid_read_timeout(hid_device *dev, unsigned char *data, size_t length,
  int milliseconds)\<close> (lines 1668-1749). \<open>data\<close> is the caller's buffer of
  \<^verbatim>\<open>length\<close> bytes and \<open>ws\<close> the wake-ups the environment has in store.
\<close>

definition hid_read_timeout ::
    "hid_device \<Rightarrow> byte list \<Rightarrow> int \<Rightarrow> wake list \<Rightarrow> read_result" where
  "hid_read_timeout dev data milliseconds ws =
     (if input_reports dev \<noteq> [] then deliver dev data ws
      else if shutdown_thread dev then no_data (- 1) dev data ws
      else if milliseconds = - 1 then blocking_wait dev data ws
      else if milliseconds > 0 then timed_wait dev data ws
      else no_data 0 dev data ws)"


subsection \<open>Writing: \<^verbatim>\<open>hid_write\<close>\<close>

text \<open>
  The two transfers \<^verbatim>\<open>hid_write\<close> asks the USB library for, with their arguments
  after the device handle. The buffer argument is the list of the bytes from the pointer
  to the end of the caller's buffer; the length argument says how many of them the
  transfer carries.
\<close>

datatype usb_request =
    Control_transfer (bmRequestType: byte) (bRequest: byte) (wValue: "16 word")
      (wIndex: "16 word") (ctrl_data: "byte list") (wLength: "16 word") (ctrl_timeout: nat)
  | Interrupt_transfer (endpoint: byte) (intr_data: "byte list") (intr_length: int)
      (intr_timeout: nat)

text \<open>
  What the USB library answers: the return value of the call and, for an interrupt
  transfer, the \<^verbatim>\<open>actual_length\<close> it stores.
\<close>

record usb_reply =
  res :: int
  actual_length :: int

text \<open>
  \<^verbatim>\<open>int hid_write(hid_device *dev, const unsigned char *data, size_t length)\<close>
  (lines 1589-1643). \<open>data\<close> is \<open>None\<close> for a null pointer and otherwise the
  \<^verbatim>\<open>length\<close> bytes of the caller's buffer; \<open>usb\<close> is the USB library. The result is
  the return value with the transfers that were asked for. The request type
  \<^verbatim>\<open>LIBUSB_REQUEST_TYPE_CLASS|LIBUSB_RECIPIENT_INTERFACE|LIBUSB_ENDPOINT_OUT\<close> is
  \<open>0x21\<close> with the values of libusb's header.
\<close>

definition hid_write ::
    "(usb_request \<Rightarrow> usb_reply) \<Rightarrow> hid_device \<Rightarrow> byte list option \<Rightarrow> int \<times> usb_request list" where
  "hid_write usb dev data =
     (case data of
        None \<Rightarrow> (- 1, [])
      | Some [] \<Rightarrow> (- 1, [])
      | Some (report_number # rest) \<Rightarrow>
          let skipped_report_id =
                ((\<not> no_skip_output_report_id dev \<and> report_number = 0x0)
                 \<or> skip_output_report_id dev);
              data' = (if skipped_report_id then rest else report_number # rest);
              length' = (if skipped_report_id then length rest else Suc (length rest))
          in
          if output_endpoint dev \<le> 0 \<or> no_output_reports_on_intr_ep dev then
            let rq = Control_transfer 0x21 0x09 (push_bit 8 2 OR ucast report_number)
                       (word_of_int (interface dev)) data' (word_of_nat length') 1000
            in if res (usb rq) < 0 then (- 1, [rq])
               else (int_of_size_t (if skipped_report_id then length' + 1 else length'), [rq])
          else
            let rq = Interrupt_transfer (word_of_int (output_endpoint dev)) data'
                       (int_of_size_t length') 1000
            in if res (usb rq) < 0 then (- 1, [rq])
               else ((if skipped_report_id then actual_length (usb rq) + 1
                      else actual_length (usb rq)), [rq]))"

subsection \<open>Xbox controllers: \<^verbatim>\<open>is_xbox360\<close>, \<^verbatim>\<open>init_xboxone\<close>\<close>

text \<open>The fields of \<^verbatim>\<open>struct libusb_interface_descriptor\<close> the source reads.\<close>

record libusb_interface_descriptor =
  bInterfaceNumber :: byte
  bAlternateSetting :: byte
  bInterfaceClass :: byte
  bInterfaceSubClass :: byte
  bInterfaceProtocol :: byte

text \<open>\<^verbatim>\<open>LIBUSB_CLASS_VENDOR_SPEC\<close>, a constant of libusb's header.\<close>

definition LIBUSB_CLASS_VENDOR_SPEC :: byte where
  "LIBUSB_CLASS_VENDOR_SPEC = 0xff"

text \<open>The table \<^verbatim>\<open>supported_vendors\<close> of \<^verbatim>\<open>is_xbox360\<close> (lines 828-855).\<close>

definition xbox360_supported_vendors :: "int list" where
  "xbox360_supported_vendors =
     [0x0079, 0x044f, 0x045e, 0x046d, 0x056e, 0x06a3, 0x0738, 0x07ff, 0x0e6f, 0x0f0d,
      0x1038, 0x11c9, 0x12ab, 0x1430, 0x146b, 0x1532, 0x15e4, 0x162e, 0x1689, 0x1949,
      0x1bad, 0x20d6, 0x24c6, 0x2c22, 0x2dc8, 0x9886]"

text \<open>
  The loop of lines 862-866 over the rest of the table: whether it returns 1 from inside.
\<close>

fun vendor_listed :: "16 word \<Rightarrow> int list \<Rightarrow> bool" where
  "vendor_listed vendor_id [] = False"
| "vendor_listed vendor_id (v # vs) =
     (if uint vendor_id = v then True else vendor_listed vendor_id vs)"

text \<open>
  \<^verbatim>\<open>static int is_xbox360(unsigned short vendor_id,
  const struct libusb_interface_descriptor *intf_desc)\<close> (lines 823-869).
\<close>

definition is_xbox360 :: "16 word \<Rightarrow> libusb_interface_descriptor \<Rightarrow> int" where
  "is_xbox360 vendor_id intf_desc =
     (let xb360_iface_subclass = 93;
          xb360_iface_protocol = 1;
          xb360w_iface_protocol = 129
      in
      if bInterfaceClass intf_desc = LIBUSB_CLASS_VENDOR_SPEC \<and>
         uint (bInterfaceSubClass intf_desc) = xb360_iface_subclass \<and>
         (uint (bInterfaceProtocol intf_desc) = xb360_iface_protocol \<or>
          uint (bInterfaceProtocol intf_desc) = xb360w_iface_protocol) \<and>
         vendor_listed vendor_id xbox360_supported_vendors
      then 1 else 0)"

text \<open>
  The calls \<^verbatim>\<open>init_xboxone\<close> makes on the device handle, with the interface number
  and the alternate setting they are given.
\<close>

datatype usb_call =
    Claim_interface int
  | Set_interface_alt_setting int int
  | Release_interface int

text \<open>
  Lines 1288-1318, the body of the inner loop for one interface descriptor. \<open>claim\<close> is
  what \<^verbatim>\<open>libusb_claim_interface\<close> returns for an interface number; a negative value
  takes the \<^verbatim>\<open>continue\<close>. What \<^verbatim>\<open>libusb_set_interface_alt_setting\<close> returns is
  only logged.
\<close>

definition xboxone_altsetting ::
    "(int \<Rightarrow> int) \<Rightarrow> 16 word \<Rightarrow> libusb_interface_descriptor \<Rightarrow> usb_call list" where
  "xboxone_altsetting claim idVendor intf_desc =
     (let vendor_microsoft = 0x045e;
          xb1_iface_subclass = 71;
          xb1_iface_protocol = 208
      in
      if bInterfaceClass intf_desc = LIBUSB_CLASS_VENDOR_SPEC \<and>
         uint (bInterfaceSubClass intf_desc) = xb1_iface_subclass \<and>
         uint (bInterfaceProtocol intf_desc) = xb1_iface_protocol
      then
        let bSetAlternateSetting =
              (if uint idVendor = vendor_microsoft \<and>
                  bInterfaceNumber intf_desc = 0 \<and> bAlternateSetting intf_desc = 1 then True
               else if bInterfaceNumber intf_desc \<noteq> 0 \<and> bAlternateSetting intf_desc = 0
               then True
               else False)
        in
        if bSetAlternateSetting then
          (if claim (uint (bInterfaceNumber intf_desc)) < 0
           then [Claim_interface (uint (bInterfaceNumber intf_desc))]
           else [Claim_interface (uint (bInterfaceNumber intf_desc)),
                 Set_interface_alt_setting (uint (bInterfaceNumber intf_desc))
                   (uint (bAlternateSetting intf_desc)),
                 Release_interface (uint (bInterfaceNumber intf_desc))])
        else []
      else [])"

text \<open>
  \<^verbatim>\<open>static void init_xboxone(libusb_device_handle *device_handle,
  unsigned short idVendor, unsigned short idProduct,
  const struct libusb_config_descriptor *conf_desc)\<close> (lines 1276-1321). The
  configuration descriptor is the list of its \<^verbatim>\<open>bNumInterfaces\<close> interfaces, each the
  list of its \<^verbatim>\<open>num_altsetting\<close> descriptors; the result is the calls made on the
  handle, in order.
\<close>

definition init_xboxone ::
    "(int \<Rightarrow> int) \<Rightarrow> 16 word \<Rightarrow> 16 word \<Rightarrow> libusb_interface_descriptor list list
     \<Rightarrow> usb_call list" where
  "init_xboxone claim idVendor idProduct conf_desc =
     concat (map (\<lambda>intf. concat (map (xboxone_altsetting claim idVendor) intf)) conf_desc)"

subsection \<open>Closing: \<^verbatim>\<open>hid_close\<close>\<close>

text \<open>The effects of \<^verbatim>\<open>hid_close\<close>, one for each statement that has one.\<close>

datatype close_effect =
    Set_shutdown_thread
  | Cancel_transfer
  | Thread_join
  | Free_transfer_buffer
  | Free_transfer
  | Release_claimed_interface int
  | Attach_kernel_driver int
  | Close_handle
  | Free_report input_report
  | Free_hid_device

text \<open>
  Lines 1888-1890: \<^verbatim>\<open>while (dev->input_reports) return_data(dev, NULL, 0);\<close>, with
  the reports it frees.
\<close>

function drain_reports :: "hid_device \<Rightarrow> close_effect list" where
  "drain_reports dev =
     (if input_reports dev \<noteq> [] then
        (case return_data dev [] of
           None \<Rightarrow> []
         | Some (r, data, dev', rpt) \<Rightarrow> Free_report rpt # drain_reports dev')
      else [])"
  by pat_completeness auto
termination
  by (relation "measure (\<lambda>dev. length (input_reports dev))")
    (auto simp: return_data_def Let_def split: list.splits)

declare drain_reports.simps [simp del]

text \<open>
  \<^verbatim>\<open>void hid_close(hid_device *dev)\<close> (lines 1854-1894). The argument is \<open>None\<close> for
  a null pointer and otherwise the device as the joined read thread has left it.
\<close>

definition hid_close :: "hid_device option \<Rightarrow> close_effect list" where
  "hid_close dev_ptr =
     (case dev_ptr of
        None \<Rightarrow> []
      | Some dev \<Rightarrow>
          [Set_shutdown_thread, Cancel_transfer, Thread_join,
           Free_transfer_buffer, Free_transfer,
           Release_claimed_interface (interface dev)]
          @ (if is_driver_detached dev then [Attach_kernel_driver (interface dev)] else [])
          @ [Close_handle]
          @ drain_reports dev
          @ [Free_hid_device])"


subsection \<open>Notions used to state the properties\<close>

text \<open>
  The device after the wake-ups \<open>ws\<close> of a waiting reader, that is after everything the
  other threads did during these waits; \<open>None\<close> if a null pointer was dereferenced.
\<close>

fun run_wakes :: "wake list \<Rightarrow> hid_device \<Rightarrow> hid_device option" where
  "run_wakes [] dev = Some dev"
| "run_wakes (w # ws) dev = do { dev' \<leftarrow> background (events w) dev; run_wakes ws dev' }"

text \<open>
  The length of a report is stored from \<^verbatim>\<open>transfer->actual_length\<close>, an \<^verbatim>\<open>int\<close>:
  the reports \<^verbatim>\<open>read_callback\<close> queues have fewer than \<open>2^31\<close> bytes.
\<close>

definition int_sized :: "input_report \<Rightarrow> bool" where
  "int_sized rpt = (length rpt < 2 ^ 31)"

definition queue_ok :: "hid_device \<Rightarrow> bool" where
  "queue_ok dev = list_all int_sized (input_reports dev)"

fun event_ok :: "bg_event \<Rightarrow> bool" where
  "event_ok (Transfer_done status received submit_res) = int_sized received"
| "event_ok Shutdown_set = True"

definition wakes_ok :: "wake list \<Rightarrow> bool" where
  "wakes_ok ws = list_all (\<lambda>w. list_all event_ok (events w)) ws"

text \<open>
  Test data: the report number \<open>k\<close> (one byte holding \<open>k\<close>), a completed transfer that
  delivers a report and is submitted again with success, and a device just opened: no
  quirks, nothing queued, the read thread running.
\<close>

definition numbered_report :: "nat \<Rightarrow> input_report" where
  "numbered_report k = [of_nat k]"

definition completed :: "input_report \<Rightarrow> bg_event" where
  "completed rpt = Transfer_done LIBUSB_TRANSFER_COMPLETED rpt 0"

definition fresh_device :: hid_device where
  "fresh_device =
     \<lparr>interface = 0, output_endpoint = 0, blocking = True, shutdown_thread = False,
      transfer_loop_finished = False, skip_output_report_id = False,
      no_skip_output_report_id = False, no_output_reports_on_intr_ep = False,
      input_reports = [], is_driver_detached = False\<rparr>"

text \<open>
  The report descriptor as the design describes it (the definitions named \<open>spec_\<close>
  are written from that description, not from the source), to say which value a scan
  ends with.
  A Short Item has 0, 1, 2 or 4 data bytes by the low two bits of its key and a header
  of one byte; a Long Item has the number of data bytes its second byte gives (none when
  that byte is missing) and a header of three bytes. \<open>spec_item_offsets rpt j\<close> are the
  offsets of the items from offset \<open>j\<close> to the end of the buffer. \<open>spec_item_value rpt j\<close> is
  the little-endian value of the data bytes of the short item at \<open>j\<close>, narrowed to 16
  bits, and zero when the data would run past the end of the buffer.
  \<open>spec_usage_page_items\<close> and \<open>spec_usage_items\<close> are the offsets of the Usage Page items
  (\<open>key AND 0xFC = 0x04\<close>) and of the Usage items (\<open>key AND 0xFC = 0x08\<close>).
\<close>

definition spec_short_data_len :: "byte \<Rightarrow> nat" where
  "spec_short_data_len key =
     (if key AND 0x3 = 0 then 0 else if key AND 0x3 = 1 then 1
      else if key AND 0x3 = 2 then 2 else 4)"

definition spec_item_length :: "byte list \<Rightarrow> nat \<Rightarrow> nat" where
  "spec_item_length rpt j =
     (if rpt ! j AND 0xF0 = 0xF0
      then 3 + (if j + 1 < length rpt then unat (rpt ! (j + 1)) else 0)
      else 1 + spec_short_data_len (rpt ! j))"

function spec_item_offsets :: "byte list \<Rightarrow> nat \<Rightarrow> nat list" where
  "spec_item_offsets rpt j =
     (if j < length rpt then j # spec_item_offsets rpt (j + spec_item_length rpt j) else [])"
  by pat_completeness auto
termination
  by (relation "measure (\<lambda>(rpt, j). length rpt - j)") (auto simp: spec_item_length_def)

declare spec_item_offsets.simps [simp del]

definition spec_le_value :: "byte list \<Rightarrow> nat" where
  "spec_le_value bs = foldr (\<lambda>b n. unat b + 256 * n) bs 0"

definition spec_item_value :: "byte list \<Rightarrow> nat \<Rightarrow> 16 word" where
  "spec_item_value rpt j =
     (let d = spec_short_data_len (rpt ! j)
      in if j + d < length rpt then of_nat (spec_le_value (take d (drop (Suc j) rpt))) else 0)"

definition spec_usage_page_items :: "byte list \<Rightarrow> nat \<Rightarrow> nat list" where
  "spec_usage_page_items rpt i = filter (\<lambda>j. rpt ! j AND 0xFC = 0x04) (spec_item_offsets rpt i)"

definition spec_usage_items :: "byte list \<Rightarrow> nat \<Rightarrow> nat list" where
  "spec_usage_items rpt i = filter (\<lambda>j. rpt ! j AND 0xFC = 0x08) (spec_item_offsets rpt i)"

text \<open>
  More test data: a USB library that reports success for an interrupt transfer with two
  bytes transferred, one that transfers all the bytes it is asked for, and a device on
  which every interface can be claimed.
\<close>

definition short_transfer :: "usb_request \<Rightarrow> usb_reply" where
  "short_transfer rq = \<lparr>res = 0, actual_length = 2\<rparr>"

definition transfers_all :: "usb_request \<Rightarrow> usb_reply" where
  "transfers_all rq =
     (case rq of
        Control_transfer t r v i d l ms \<Rightarrow> \<lparr>res = uint l, actual_length = 0\<rparr>
      | Interrupt_transfer e d n ms \<Rightarrow> \<lparr>res = 0, actual_length = n\<rparr>)"

definition claim_succeeds :: "int \<Rightarrow> int" where
  "claim_succeeds interface_number = 0"

text \<open>
A device on which no interface can be claimed (\<^verbatim>\<open>LIBUSB_ERROR_BUSY\<close>).
\<close>

definition claim_fails :: "int \<Rightarrow> int" where
  "claim_fails interface_number = - 6"

text \<open>An interface descriptor of the Xbox One kind: vendor specific, subclass 71, protocol 208.\<close>

definition xboxone_interface :: "byte \<Rightarrow> byte \<Rightarrow> libusb_interface_descriptor" where
  "xboxone_interface number alt =
     \<lparr>bInterfaceNumber = number, bAlternateSetting = alt,
      bInterfaceClass = LIBUSB_CLASS_VENDOR_SPEC, bInterfaceSubClass = 71,
      bInterfaceProtocol = 208\<rparr>"

text \<open>
  How a call of \<^verbatim>\<open>hid_read_timeout\<close> that used the wake-ups \<open>used\<close> and then saw
  the device \<open>S\<close> ends, for the loop of the timed wait alone and for the whole call with
  the timeout \<open>ms\<close>: by the return of 0 or -1 with nothing consumed, or by the delivery of
  the oldest report of \<open>S\<close>.
\<close>

definition timed_end ::
    "wake list \<Rightarrow> hid_device \<Rightarrow> byte list \<Rightarrow> read_outcome \<Rightarrow> bool" where
  "timed_end used S data out =
     ((used \<noteq> [] \<and> wait_res (last used) = WAIT_OK \<and> input_reports S \<noteq> [] \<and>
        deliver S data (wakes_left out) = Returned out)
    \<or> ((used = [] \<or> wait_res (last used) = WAIT_OK) \<and> input_reports S = [] \<and>
        shutdown_thread S \<and> no_data (- 1) S data (wakes_left out) = Returned out)
    \<or> (used \<noteq> [] \<and> wait_res (last used) = WAIT_TIMED_OUT \<and>
        no_data 0 S data (wakes_left out) = Returned out)
    \<or> (used \<noteq> [] \<and> wait_res (last used) = WAIT_ERROR \<and>
        no_data (- 1) S data (wakes_left out) = Returned out))"

definition call_end ::
    "int \<Rightarrow> wake list \<Rightarrow> hid_device \<Rightarrow> byte list \<Rightarrow> read_outcome \<Rightarrow> bool" where
  "call_end ms used S data out =
     (if 0 < ms \<and> used \<noteq> [] \<and> wait_res (last used) = WAIT_TIMED_OUT then
        no_data 0 S data (wakes_left out) = Returned out
      else if 0 < ms \<and> used \<noteq> [] \<and> wait_res (last used) = WAIT_ERROR then
        no_data (- 1) S data (wakes_left out) = Returned out
      else if input_reports S \<noteq> [] then deliver S data (wakes_left out) = Returned out
      else if shutdown_thread S then no_data (- 1) S data (wakes_left out) = Returned out
      else no_data 0 S data (wakes_left out) = Returned out \<and> used = [] \<and>
           ms \<noteq> - 1 \<and> \<not> 0 < ms)"

section \<open>Properties\<close>

subsection \<open>The report descriptor parser\<close>

lemma get_bytes_total: "length rpt = len \<Longrightarrow> \<exists>w. get_bytes rpt len n cur = Some w"
  by (simp add: get_bytes_def read_at_def)

lemma get_bytes_short: "len \<le> cur + n \<Longrightarrow> get_bytes rpt len n cur = Some 0"
  by (simp add: get_bytes_def)

lemma item_data_len_total:
  "length rpt = sz \<Longrightarrow> \<exists>n. item_data_len rpt sz i key = Some n"
  by (simp add: item_data_len_def read_at_def Let_def)

lemma scan_usage_page_total:
  "length rpt = sz \<Longrightarrow> \<exists>v'. scan_usage_page rpt sz i k d v = Some v'"
  using get_bytes_total [of rpt sz d i]
  by (auto simp: scan_usage_page_def)

lemma scan_usage_total:
  "length rpt = sz \<Longrightarrow> \<exists>v'. scan_usage rpt sz i k d v = Some v'"
  using get_bytes_total [of rpt sz d i] get_bytes_total [of rpt sz 2 i]
    get_bytes_total [of rpt sz 2 "i + 2"]
  by (auto simp: scan_usage_def)

lemma scan_item_total:
  assumes "length rpt = sz" "i < sz"
  shows "\<exists>r. scan_item rpt sz i v = Some r"
proof -
  from assms have k: "read_at rpt i = Some (rpt ! i)" by (simp add: read_at_def)
  obtain d where d: "item_data_len rpt sz i (rpt ! i) = Some d"
    using item_data_len_total [OF assms(1)] by blast
  obtain v1 where v1: "scan_usage_page rpt sz i (rpt ! i AND 0xfc) d v = Some v1"
    using scan_usage_page_total [OF assms(1)] by blast
  obtain v2 where v2: "scan_usage rpt sz i (rpt ! i AND 0xfc) d v1 = Some v2"
    using scan_usage_total [OF assms(1)] by blast
  show ?thesis by (simp add: scan_item_def k d v1 v2)
qed

lemma get_usage_loop_end:
  "\<not> i < sz \<Longrightarrow> get_usage_loop rpt sz i v = Some (- 1, v)"
  by (subst get_usage_loop.simps) simp

lemma get_usage_loop_step:
  "i < sz \<Longrightarrow> scan_item rpt sz i v = Some (key, d, v') \<Longrightarrow>
   get_usage_loop rpt sz i v =
     (if usage_page_found v' \<and> usage_found v' then Some (0, v')
      else get_usage_loop rpt sz (i + d + item_key_size key) v')"
  by (subst get_usage_loop.simps) simp

lemma get_usage_loop_skip:
  "i < sz \<Longrightarrow> scan_item rpt sz i v = Some (key, d, v') \<Longrightarrow>
   \<not> (usage_page_found v' \<and> usage_found v') \<Longrightarrow> j = i + d + item_key_size key \<Longrightarrow>
   get_usage_loop rpt sz i v = get_usage_loop rpt sz j v'"
  by (auto simp: get_usage_loop_step)

lemma get_usage_loop_total:
  "length rpt = sz \<Longrightarrow> \<exists>r. get_usage_loop rpt sz i v = Some r"
proof (induction rpt sz i v rule: get_usage_loop.induct)
  case (1 rpt sz i v)
  show ?case
  proof (cases "i < sz")
    case False
    then show ?thesis by (simp add: get_usage_loop_end)
  next
    case True
    obtain key d v' where s: "scan_item rpt sz i v = Some (key, d, v')"
      using scan_item_total [OF "1.prems" True, of v] by (metis prod_cases3)
    show ?thesis
    proof (cases "usage_page_found v' \<and> usage_found v'")
      case True
      with s \<open>i < sz\<close> show ?thesis by (simp add: get_usage_loop_step)
    next
      case False
      from "1.IH" [OF \<open>i < sz\<close> s refl refl False "1.prems"] s \<open>i < sz\<close> False
      show ?thesis by (simp add: get_usage_loop_step)
    qed
  qed
qed

lemma key_0b: 
  fixes key :: byte
  assumes "key AND 0xFC = 0x08" "key AND 0x3 = 0x3"
  shows "key = 0x0B"
proof -
  have "(0xFC OR 0x3 :: byte) = - 1" by simp
  then have "key = key AND (0xFC OR 0x3)" by (simp only: and.right_neutral)
  also have "\<dots> = (key AND 0xFC) OR (key AND 0x3)" by (simp only: bit.conj_disj_distrib)
  also have "\<dots> = 0x0B" by (simp add: assms)
  finally show ?thesis .
qed

lemma le16_unat:
  fixes hi lo :: byte
  shows "unat (ucast (ucast hi * 256 + ucast lo :: 32 word) :: 16 word) = unat hi * 256 + unat lo"
proof -
  have h: "unat hi < 256" and l: "unat lo < 256" using unsigned_less [of hi, where ?'a = nat] unsigned_less [of lo, where ?'a = nat] by simp_all
  show ?thesis using h l
    by (simp add: unsigned_ucast_eq unat_word_ariths take_bit_eq_mod)
qed


lemma get_bytes_2:
  "cur + 2 < len \<Longrightarrow> length rpt = len \<Longrightarrow>
   get_bytes rpt len 2 cur = Some (ucast (rpt ! (cur + 2)) * 256 + ucast (rpt ! (cur + 1)))"
  by (simp add: get_bytes_def read_at_def)

text \<open>
  Claim C4. Where the scan stands at a Usage item (\<open>key AND 0xFC = 0x08\<close>) at offset
  \<open>i\<close> that is a 4-byte short item (size code 3) whose four data bytes lie inside the
  buffer (\<open>i + 4 < size\<close>), it stores as usage page the little-endian 16-bit value of
  the bytes \<open>i+3\<close> and \<open>i+4\<close>, as usage the little-endian 16-bit value of the bytes
  \<open>i+1\<close> and \<open>i+2\<close>, sets both flags and returns 0, whatever the variables held;
  when the item is the first of the descriptor these two values are the result of
  \<^verbatim>\<open>get_usage\<close>.
\<close>

theorem usage_item_4_bytes_decoded:
  assumes "length rpt = sz" and "i + 4 < sz"
    and "rpt ! i AND 0xFC = 0x08" and "rpt ! i AND 0x3 = 0x3"
  shows "\<exists>P U. unat P = unat (rpt ! (i + 4)) * 256 + unat (rpt ! (i + 3)) \<and>
           unat U = unat (rpt ! (i + 2)) * 256 + unat (rpt ! (i + 1)) \<and>
           get_usage_loop rpt sz i v =
             Some (0, v\<lparr>usage_page := P, usage_page_found := True,
                        usage := U, usage_found := True\<rparr>) \<and>
           (i = 0 \<longrightarrow> get_usage rpt sz page0 usage0 = Some (0, P, U))"
proof -
  have key: "rpt ! i = 0x0B" using assms(3,4) by (rule key_0b)
  have rd: "read_at rpt i = Some 0x0B" using assms(1,2) key by (simp add: read_at_def)
  have dl: "item_data_len rpt sz i 0x0B = Some 4" by (simp add: item_data_len_def)
  have pg: "scan_usage_page rpt sz i 0x08 4 w = Some w" for w
    by (simp add: scan_usage_page_def)
  have g1: "get_bytes rpt sz 2 (i + 2) =
      Some (ucast (rpt ! (i + 4)) * 256 + ucast (rpt ! (i + 3)))"
    using get_bytes_2 [of "i + 2" sz rpt] assms(1,2) by (simp add: eval_nat_numeral)
  have g2: "get_bytes rpt sz 2 i = Some (ucast (rpt ! (i + 2)) * 256 + ucast (rpt ! (i + 1)))"
    using get_bytes_2 [of i sz rpt] assms(1,2) by simp
  let ?P = "ucast (ucast (rpt ! (i + 4)) * 256 + ucast (rpt ! (i + 3)) :: 32 word) :: 16 word"
  let ?U = "ucast (ucast (rpt ! (i + 2)) * 256 + ucast (rpt ! (i + 1)) :: 32 word) :: 16 word"
  have us: "scan_usage rpt sz i 0x08 4 w =
      Some (w\<lparr>usage_page := ?P, usage_page_found := True, usage := ?U, usage_found := True\<rparr>)"
    for w
    unfolding scan_usage_def g1 g2 by simp
  have it: "scan_item rpt sz i w =
      Some (0x0B, 4, w\<lparr>usage_page := ?P, usage_page_found := True,
                         usage := ?U, usage_found := True\<rparr>)"
    for w
    by (simp add: scan_item_def rd dl pg us)
  have loop: "get_usage_loop rpt sz i w =
      Some (0, w\<lparr>usage_page := ?P, usage_page_found := True, usage := ?U, usage_found := True\<rparr>)"
    for w
    using assms(2) by (simp add: get_usage_loop_step [OF _ it])
  have "i = 0 \<longrightarrow> get_usage rpt sz page0 usage0 = Some (0, ?P, ?U)"
  proof
    assume z: "i = 0"
    show "get_usage rpt sz page0 usage0 = Some (0, ?P, ?U)"
      unfolding get_usage_def loop [unfolded z] z by simp
  qed
  moreover have "unat ?P = unat (rpt ! (i + 4)) * 256 + unat (rpt ! (i + 3))"
    by (rule le16_unat)
  moreover have "unat ?U = unat (rpt ! (i + 2)) * 256 + unat (rpt ! (i + 1))"
    by (rule le16_unat)
  ultimately show ?thesis using loop [of v] by blast
qed

lemma scan_item_flags:
  assumes "scan_item rpt sz i v = Some (key, d, v')"
  shows "(usage_page_found v \<longrightarrow> usage_page_found v') \<and>
         (usage_found v \<longrightarrow> usage_found v') \<and>
         (\<not> usage_page_found v' \<longrightarrow> usage_page v' = usage_page v) \<and>
         (\<not> usage_found v' \<longrightarrow> usage v' = usage v)"
  using assms
  by (auto simp: scan_item_def scan_usage_page_def scan_usage_def
      split: bind_splits if_splits)

lemma get_usage_loop_flags:
  assumes "get_usage_loop rpt sz i v = Some (r, v')"
  shows "(usage_page_found v \<longrightarrow> usage_page_found v') \<and>
         (usage_found v \<longrightarrow> usage_found v')"
  using assms
proof (induction rpt sz i v rule: get_usage_loop.induct)
  case (1 rpt sz i v)
  show ?case
  proof (cases "i < sz")
    case False
    with "1.prems" show ?thesis by (simp add: get_usage_loop_end)
  next
    case True
    from "1.prems"(1) True obtain key d v1 where
      s: "scan_item rpt sz i v = Some (key, d, v1)"
      by (subst (asm) get_usage_loop.simps) (auto split: option.splits)
    show ?thesis
    proof (cases "usage_page_found v1 \<and> usage_found v1")
      case both: True
      with "1.prems"(1) s True show ?thesis
        by (subst (asm) get_usage_loop.simps) auto
    next
      case nb: False
      from "1.prems"(1) s True nb have
        rec: "get_usage_loop rpt sz (i + d + item_key_size key) v1 = Some (r, v')"
        by (subst (asm) get_usage_loop.simps) simp
      from "1.IH" [OF True s refl refl nb rec] scan_item_flags [OF s]
      show ?thesis by blast
    qed
  qed
qed

lemma get_usage_loop_failure:
  assumes "get_usage_loop rpt sz i v = Some (r, v')" and "r \<noteq> 0"
    and "\<not> (usage_page_found v \<and> usage_found v)"
  shows "r = - 1 \<and> \<not> (usage_page_found v' \<and> usage_found v') \<and>
         (\<not> usage_page_found v' \<longrightarrow> usage_page v' = usage_page v) \<and>
         (\<not> usage_found v' \<longrightarrow> usage v' = usage v)"
  using assms
proof (induction rpt sz i v rule: get_usage_loop.induct)
  case (1 rpt sz i v)
  show ?case
  proof (cases "i < sz")
    case False
    with "1.prems" show ?thesis by (simp add: get_usage_loop_end)
  next
    case True
    from "1.prems"(1) True obtain key d v1 where
      s: "scan_item rpt sz i v = Some (key, d, v1)"
      by (subst (asm) get_usage_loop.simps) (auto split: option.splits)
    show ?thesis
    proof (cases "usage_page_found v1 \<and> usage_found v1")
      case both: True
      with "1.prems"(1,2) s True show ?thesis
        by (subst (asm) get_usage_loop.simps) simp
    next
      case nb: False
      from "1.prems"(1) s True nb have
        rec: "get_usage_loop rpt sz (i + d + item_key_size key) v1 = Some (r, v')"
        by (subst (asm) get_usage_loop.simps) simp
      from "1.IH" [OF True s refl refl nb rec "1.prems"(2) nb]
      have ih: "r = - 1 \<and> \<not> (usage_page_found v' \<and> usage_found v') \<and>
         (\<not> usage_page_found v' \<longrightarrow> usage_page v' = usage_page v1) \<and>
         (\<not> usage_found v' \<longrightarrow> usage v' = usage v1)" .
      from scan_item_flags [OF s] ih get_usage_loop_flags [OF rec]
      show ?thesis by metis
    qed
  qed
qed


text \<open>
  The descriptor Report Size (8), Usage (page 1, usage 2, four bytes), End Collection:
  the scan skips the first item and decodes the second, at offset 2.
\<close>

theorem usage_item_4_bytes_decoded_witness:
  "get_usage [0x75, 0x08, 0x0B, 0x02, 0x00, 0x01, 0x00, 0xC0] 8 0 0 = Some (0, 1, 2)"
proof -
  let ?rpt = "[0x75, 0x08, 0x0B, 0x02, 0x00, 0x01, 0x00, 0xC0] :: byte list"
  let ?v0 = "\<lparr>usage_page = 0, usage = 0, usage_page_found = False, usage_found = False\<rparr>"
  have "length ?rpt = 8" "(2::nat) + 4 < 8" "?rpt ! 2 AND 0xFC = 0x08" "?rpt ! 2 AND 0x3 = 0x3"
    by simp_all
  from usage_item_4_bytes_decoded [OF this, of ?v0] obtain P U where
    P: "unat P = 1" and U: "unat U = 2" and
    l: "get_usage_loop ?rpt 8 2 ?v0 =
          Some (0, ?v0\<lparr>usage_page := P, usage_page_found := True,
                          usage := U, usage_found := True\<rparr>)"
    by auto
  from P have P1: "P = 1" by (simp add: word_unat_eq_iff)
  from U have U2: "U = 2" by (simp add: word_unat_eq_iff)
  have it: "scan_item ?rpt 8 0 ?v0 = Some (0x75, 1, ?v0)"
    by (simp add: scan_item_def read_at_def item_data_len_def scan_usage_page_def
        scan_usage_def)
  have step: "get_usage_loop ?rpt 8 0 ?v0 = get_usage_loop ?rpt 8 2 ?v0"
    by (rule get_usage_loop_skip [OF _ it]) (simp_all add: item_key_size_def)
  show ?thesis by (simp add: get_usage_def step l P1 U2)
qed

lemma and3_cases:
  fixes key :: byte
  shows "key AND 3 = 0 \<or> key AND 3 = 1 \<or> key AND 3 = 2 \<or> key AND 3 = 3"
proof -
  have "key AND 3 \<le> 3" by (rule word_and_le1)
  then have "unat (key AND 3) \<le> 3" by (simp add: word_le_nat_alt)
  then have "unat (key AND 3) = 0 \<or> unat (key AND 3) = 1 \<or> unat (key AND 3) = 2 \<or>
      unat (key AND 3) = 3" by arith
  then show ?thesis by (auto simp: word_unat_eq_iff)
qed

lemma short_item_data_len:
  "key AND 0xf0 \<noteq> 0xf0 \<Longrightarrow> item_data_len rpt sz i key = Some (spec_short_data_len key)"
  using and3_cases [of key]
  by (auto simp: item_data_len_def spec_short_data_len_def Let_def)

lemma usage_key_short:
  fixes key :: byte
  assumes "key AND 0xFC = 0x04 \<or> key AND 0xFC = 0x08"
  shows "key AND 0xF0 \<noteq> 0xF0"
proof -
  have "key AND 0xF0 = (key AND 0xFC) AND 0xF0" by (simp add: and.assoc)
  with assms show ?thesis by auto
qed

lemma take_drop_1: "j + 1 < length xs \<Longrightarrow> take 1 (drop (Suc j) xs) = [xs ! (j + 1)]"
  by (simp add: take_Suc_conv_app_nth)

lemma take_drop_2:
  "j + 2 < length xs \<Longrightarrow> take 2 (drop (Suc j) xs) = [xs ! (j + 1), xs ! (j + 2)]"
  by (simp add: numeral_2_eq_2 take_Suc_conv_app_nth)

lemma take_drop_4:
  "j + 4 < length xs \<Longrightarrow>
   take 4 (drop (Suc j) xs) = [xs ! (j + 1), xs ! (j + 2), xs ! (j + 3), xs ! (j + 4)]"
  by (simp add: eval_nat_numeral take_Suc_conv_app_nth)

lemma byte_lt: "unat (b :: byte) < 256"
  using unsigned_less [of b, where ?'a = nat] by simp

lemma down16: "unat (ucast (w :: 32 word) :: 16 word) = unat w mod 65536"
  using unsigned_ucast_eq [of w, where ?'a = nat and ?'c = 16] by (simp add: take_bit_eq_mod)

lemma up8: "unat (ucast (b :: byte) :: 32 word) = unat b"
  using unsigned_ucast_eq [of b, where ?'a = nat and ?'c = 32] byte_lt [of b]
  by (simp add: take_bit_eq_mod)

lemma of_nat16: "unat (of_nat n :: 16 word) = n mod 65536"
  by (simp add: unsigned_of_nat take_bit_eq_mod)

lemma le1_word: "(ucast (ucast (b1 :: byte) :: 32 word) :: 16 word) = of_nat (unat b1)"
  by (simp only: word_unat_eq_iff down16 up8 of_nat16)

lemma le2_word:
  "(ucast (ucast (b2 :: byte) * 256 + ucast (b1 :: byte) :: 32 word) :: 16 word) =
   of_nat (unat b1 + 256 * unat b2)"
proof -
  have "unat (ucast b2 * 256 + ucast b1 :: 32 word) = unat b2 * 256 + unat b1"
    using byte_lt [of b1] byte_lt [of b2] by (simp add: unat_word_ariths up8)
  then show ?thesis
    by (simp only: word_unat_eq_iff down16 of_nat16) (simp add: ac_simps)
qed

lemma le4_word:
  "(ucast (ucast (b4 :: byte) * 0x01000000 + ucast (b3 :: byte) * 0x00010000 +
           ucast (b2 :: byte) * 0x00000100 + ucast (b1 :: byte) * 0x00000001 :: 32 word)
     :: 16 word) =
   of_nat (unat b1 + 256 * (unat b2 + 256 * (unat b3 + 256 * unat b4)))"
proof -
  have "unat (ucast b4 * 0x01000000 + ucast b3 * 0x00010000 +
           ucast b2 * 0x00000100 + ucast b1 * 0x00000001 :: 32 word) =
        unat b4 * 16777216 + unat b3 * 65536 + unat b2 * 256 + unat b1"
    using byte_lt [of b1] byte_lt [of b2] byte_lt [of b3] byte_lt [of b4]
    by (simp add: unat_word_ariths up8)
  moreover have "unat b4 * 16777216 + unat b3 * 65536 + unat b2 * 256 + unat b1 =
      unat b1 + 256 * (unat b2 + 256 * (unat b3 + 256 * unat b4))"
    by simp
  ultimately show ?thesis
    by (simp only: word_unat_eq_iff down16 of_nat16)
qed


lemma spec_short_data_len_cases:
  "spec_short_data_len key = 0 \<or> spec_short_data_len key = 1 \<or> spec_short_data_len key = 2 \<or>
   spec_short_data_len key = 4"
  by (simp add: spec_short_data_len_def)

lemma get_bytes_item_value:
  assumes "length rpt = sz" and "j < sz" and "d = spec_short_data_len (rpt ! j)"
  shows "\<exists>w. get_bytes rpt sz d j = Some w \<and> ucast w = spec_item_value rpt j"
proof (cases "j + d < sz")
  case False
  with assms show ?thesis by (simp add: get_bytes_def spec_item_value_def)
next
  case True
  from spec_short_data_len_cases [of "rpt ! j"] assms(3)
  consider "d = 0" | "d = 1" | "d = 2" | "d = 4" by auto
  then show ?thesis
  proof cases
    case 1
    with assms True show ?thesis by (simp add: get_bytes_def spec_item_value_def spec_le_value_def)
  next
    case 2
    with assms True have "take d (drop (Suc j) rpt) = [rpt ! (j + 1)]"
      using take_drop_1 [of j rpt] by simp
    with 2 assms True show ?thesis
      by (simp add: get_bytes_def read_at_def spec_item_value_def spec_le_value_def le1_word)
  next
    case 3
    with assms True have "take d (drop (Suc j) rpt) = [rpt ! (j + 1), rpt ! (j + 2)]"
      using take_drop_2 [of j rpt] by simp
    with 3 assms True show ?thesis
      by (simp add: get_bytes_def read_at_def spec_item_value_def spec_le_value_def le2_word)
  next
    case 4
    with assms True have "take d (drop (Suc j) rpt) =
        [rpt ! (j + 1), rpt ! (j + 2), rpt ! (j + 3), rpt ! (j + 4)]"
      using take_drop_4 [of j rpt] by simp
    with 4 assms True show ?thesis
      using le4_word [of "rpt ! (j + 4)" "rpt ! (j + 3)" "rpt ! (j + 2)" "rpt ! (j + 1)"]
      by (simp add: get_bytes_def read_at_def spec_item_value_def spec_le_value_def)
  qed
qed

lemma scan_item_step:
  assumes "length rpt = sz" and "i < sz" and "scan_item rpt sz i v = Some (key, d, v1)"
  shows "key = rpt ! i \<and> i + d + item_key_size key = i + spec_item_length rpt i"
proof -
  from assms have k: "key = rpt ! i"
    by (auto simp: scan_item_def read_at_def split: bind_splits)
  from assms k have dl: "item_data_len rpt sz i key = Some d"
    by (auto simp: scan_item_def read_at_def split: bind_splits)
  show ?thesis
  proof (cases "key AND 0xf0 = 0xf0")
    case True
    with dl assms(1) k show ?thesis
      by (auto simp: item_data_len_def item_key_size_def spec_item_length_def read_at_def
          split: if_splits)
  next
    case False
    with dl have "d = spec_short_data_len key" by (simp add: short_item_data_len)
    with False k show ?thesis by (simp add: item_key_size_def spec_item_length_def)
  qed
qed

lemma scan_item_page:
  assumes "length rpt = sz" and "i < sz" and "scan_item rpt sz i v = Some (key, d, v1)"
    and "rpt ! i AND 0xFC = 0x04"
  shows "usage_page v1 = spec_item_value rpt i \<and> usage_page_found v1 \<and>
         usage v1 = usage v \<and> usage_found v1 = usage_found v"
proof -
  from assms have k: "key = rpt ! i"
    by (auto simp: scan_item_def read_at_def split: bind_splits)
  have sh: "key AND 0xf0 \<noteq> 0xf0" using usage_key_short [of key] assms(4) k by simp
  from assms k have dl: "item_data_len rpt sz i key = Some d"
    by (auto simp: scan_item_def read_at_def split: bind_splits)
  with sh have d: "d = spec_short_data_len (rpt ! i)" by (simp add: short_item_data_len k)
  from get_bytes_item_value [OF assms(1,2) d] obtain w where
    w: "get_bytes rpt sz d i = Some w" "ucast w = spec_item_value rpt i" by blast
  from assms(3) k dl w assms(1,2,4) show ?thesis
    by (auto simp: scan_item_def read_at_def scan_usage_page_def scan_usage_def
        split: bind_splits)
qed

lemma scan_item_usage:
  assumes "length rpt = sz" and "i < sz" and "scan_item rpt sz i v = Some (key, d, v1)"
    and "rpt ! i AND 0xFC = 0x08" and "\<not> (usage_page_found v1 \<and> usage_found v1)"
  shows "usage v1 = spec_item_value rpt i \<and> usage_found v1 \<and>
         usage_page v1 = usage_page v \<and> usage_page_found v1 = usage_page_found v"
proof -
  from assms have k: "key = rpt ! i"
    by (auto simp: scan_item_def read_at_def split: bind_splits)
  have sh: "key AND 0xf0 \<noteq> 0xf0" using usage_key_short [of key] assms(4) k by simp
  from assms k have dl: "item_data_len rpt sz i key = Some d"
    by (auto simp: scan_item_def read_at_def split: bind_splits)
  with sh have d: "d = spec_short_data_len (rpt ! i)" by (simp add: short_item_data_len k)
  from get_bytes_item_value [OF assms(1,2) d] obtain w where
    w: "get_bytes rpt sz d i = Some w" "ucast w = spec_item_value rpt i" by blast
  from assms(3) k dl w assms(1,2,4,5) show ?thesis
    by (auto simp: scan_item_def read_at_def scan_usage_page_def scan_usage_def
        split: bind_splits if_splits)
qed

lemma scan_item_other:
  assumes "scan_item rpt sz i v = Some (key, d, v1)" and "i < length rpt"
    and "rpt ! i AND 0xFC \<noteq> 0x04" and "rpt ! i AND 0xFC \<noteq> 0x08"
  shows "v1 = v"
  using assms
  by (auto simp: scan_item_def read_at_def scan_usage_page_def scan_usage_def
      split: bind_splits if_splits)


lemma spec_item_offsets_end: "\<not> j < length rpt \<Longrightarrow> spec_item_offsets rpt j = []"
  by (subst spec_item_offsets.simps) simp

lemma spec_item_offsets_step:
  "j < length rpt \<Longrightarrow> spec_item_offsets rpt j = j # spec_item_offsets rpt (j + spec_item_length rpt j)"
  by (subst spec_item_offsets.simps) simp

lemma items_end:
  "\<not> i < length rpt \<Longrightarrow> spec_usage_page_items rpt i = [] \<and> spec_usage_items rpt i = []"
  by (simp add: spec_usage_page_items_def spec_usage_items_def spec_item_offsets.simps [of rpt i])

lemma items_step:
  "i < length rpt \<Longrightarrow>
   spec_usage_page_items rpt i =
     (if rpt ! i AND 0xFC = 0x04 then i # spec_usage_page_items rpt (i + spec_item_length rpt i)
      else spec_usage_page_items rpt (i + spec_item_length rpt i)) \<and>
   spec_usage_items rpt i =
     (if rpt ! i AND 0xFC = 0x08 then i # spec_usage_items rpt (i + spec_item_length rpt i)
      else spec_usage_items rpt (i + spec_item_length rpt i))"
  by (simp add: spec_usage_page_items_def spec_usage_items_def spec_item_offsets.simps [of rpt i])

lemma failing_scan_values:
  assumes "length rpt = sz" and "get_usage_loop rpt sz i v = Some (r, v')" and "r \<noteq> 0"
    and "\<not> (usage_page_found v \<and> usage_found v)"
  shows "usage_page v' =
           (if spec_usage_page_items rpt i = [] then usage_page v
            else spec_item_value rpt (last (spec_usage_page_items rpt i))) \<and>
         usage_page_found v' = (usage_page_found v \<or> spec_usage_page_items rpt i \<noteq> []) \<and>
         usage v' =
           (if spec_usage_items rpt i = [] then usage v
            else spec_item_value rpt (last (spec_usage_items rpt i))) \<and>
         usage_found v' = (usage_found v \<or> spec_usage_items rpt i \<noteq> [])"
  using assms
proof (induction rpt sz i v rule: get_usage_loop.induct)
  case (1 rpt sz i v)
  show ?case
  proof (cases "i < sz")
    case False
    with "1.prems"(2) have "v' = v" by (simp add: get_usage_loop_end)
    moreover from False "1.prems"(1) have
      "spec_usage_page_items rpt i = [] \<and> spec_usage_items rpt i = []"
      by (intro items_end) simp
    ultimately show ?thesis by simp
  next
    case True
    from "1.prems"(2) True obtain key d v1 where
      s: "scan_item rpt sz i v = Some (key, d, v1)"
      by (subst (asm) get_usage_loop.simps) (auto split: option.splits)
    have nb: "\<not> (usage_page_found v1 \<and> usage_found v1)"
    proof
      assume "usage_page_found v1 \<and> usage_found v1"
      with "1.prems"(2) s True have "r = 0" by (simp add: get_usage_loop_step)
      with "1.prems"(3) show False by simp
    qed
    from scan_item_step [OF "1.prems"(1) True s] have
      k: "key = rpt ! i" and nx: "i + d + item_key_size key = i + spec_item_length rpt i"
      by blast+
    from "1.prems"(2) s True nb have
      rec: "get_usage_loop rpt sz (i + d + item_key_size key) v1 = Some (r, v')"
      by (simp add: get_usage_loop_step)
    note ih = "1.IH" [OF True s refl refl nb "1.prems"(1) rec "1.prems"(3) nb,
        unfolded nx]
    from True "1.prems"(1) have il: "i < length rpt" by simp
    note st = items_step [OF il]
    consider (page) "rpt ! i AND 0xFC = 0x04"
      | (usage) "rpt ! i AND 0xFC = 0x08"
      | (other) "rpt ! i AND 0xFC \<noteq> 0x04" "rpt ! i AND 0xFC \<noteq> 0x08"
      by blast
    then show ?thesis
    proof cases
      case page
      from scan_item_page [OF "1.prems"(1) True s page] ih st page show ?thesis
        by auto
    next
      case usage
      from scan_item_usage [OF "1.prems"(1) True s usage nb] ih st usage show ?thesis
        by auto
    next
      case other
      from scan_item_other [OF s il other] ih st other show ?thesis by auto
    qed
  qed
qed

text \<open>
  Claim C5, amended. A scan that reaches the end of the buffer without both a Usage Page
  and a Usage returns -1, and then at least one of the two has not been found; an output
  whose item has not been found still holds what it held at the call (zero in
  \<^verbatim>\<open>fill_device_info_usage\<close>, which stores both outputs in the device info whatever
  \<^verbatim>\<open>get_usage\<close> returns). An output whose item has been found holds the decoded
  value, which the failing scan does not restore: on a buffer of \<open>size\<close> bytes the usage
  page is found exactly when the descriptor has a Usage Page item and is then the value
  of the last one, and likewise the usage.
\<close>

theorem failing_scan_keeps_unfound_output:
  assumes "get_usage_loop rpt sz 0
             \<lparr>usage_page = page0, usage = usage0,
              usage_page_found = False, usage_found = False\<rparr> = Some (r, v')"
    and "r \<noteq> 0"
  shows "r = - 1 \<and> get_usage rpt sz page0 usage0 = Some (- 1, usage_page v', usage v') \<and>
         \<not> (usage_page_found v' \<and> usage_found v') \<and>
         (\<not> usage_page_found v' \<longrightarrow> usage_page v' = page0) \<and>
         (\<not> usage_found v' \<longrightarrow> usage v' = usage0) \<and>
         (page0 = 0 \<and> usage0 = 0 \<longrightarrow>
            fill_device_info_usage (int sz) rpt = Some (usage_page v', usage v')) \<and>
         (length rpt = sz \<longrightarrow>
            usage_page_found v' = (spec_usage_page_items rpt 0 \<noteq> []) \<and>
            usage_found v' = (spec_usage_items rpt 0 \<noteq> []) \<and>
            usage_page v' =
              (if spec_usage_page_items rpt 0 = [] then page0
               else spec_item_value rpt (last (spec_usage_page_items rpt 0))) \<and>
            usage v' =
              (if spec_usage_items rpt 0 = [] then usage0
               else spec_item_value rpt (last (spec_usage_items rpt 0))))"
proof -
  from get_usage_loop_failure [OF assms] have
    f: "r = - 1" "\<not> (usage_page_found v' \<and> usage_found v')"
      "\<not> usage_page_found v' \<longrightarrow> usage_page v' = page0"
      "\<not> usage_found v' \<longrightarrow> usage v' = usage0"
    by simp_all
  have g: "get_usage rpt sz page0 usage0 = Some (- 1, usage_page v', usage v')"
    using assms(1) f(1) by (simp add: get_usage_def)
  then have h: "page0 = 0 \<and> usage0 = 0 \<longrightarrow>
      fill_device_info_usage (int sz) rpt = Some (usage_page v', usage v')"
    by (auto simp: fill_device_info_usage_def)
  have "length rpt = sz \<longrightarrow>
            usage_page_found v' = (spec_usage_page_items rpt 0 \<noteq> []) \<and>
            usage_found v' = (spec_usage_items rpt 0 \<noteq> []) \<and>
            usage_page v' =
              (if spec_usage_page_items rpt 0 = [] then page0
               else spec_item_value rpt (last (spec_usage_page_items rpt 0))) \<and>
            usage v' =
              (if spec_usage_items rpt 0 = [] then usage0
               else spec_item_value rpt (last (spec_usage_items rpt 0)))"
  proof
    assume l: "length rpt = sz"
    from failing_scan_values [OF l assms(1,2)]
    show "usage_page_found v' = (spec_usage_page_items rpt 0 \<noteq> []) \<and>
            usage_found v' = (spec_usage_items rpt 0 \<noteq> []) \<and>
            usage_page v' =
              (if spec_usage_page_items rpt 0 = [] then page0
               else spec_item_value rpt (last (spec_usage_page_items rpt 0))) \<and>
            usage v' =
              (if spec_usage_items rpt 0 = [] then usage0
               else spec_item_value rpt (last (spec_usage_items rpt 0)))"
      by simp
  qed
  with f g h show ?thesis by blast
qed

text \<open>
  A descriptor that is one Usage Page item (Generic Desktop): the scan fails, and the
  usage page is 1 afterwards.
\<close>

lemma usage_page_only_loop:
  "get_usage_loop [0x05, 0x01] 2 0
     \<lparr>usage_page = 0, usage = 0, usage_page_found = False, usage_found = False\<rparr> =
   Some (- 1, \<lparr>usage_page = 1, usage = 0, usage_page_found = True, usage_found = False\<rparr>)"
  by (simp add: get_usage_loop.simps [of _ _ 0] get_usage_loop_end
      scan_item_def read_at_def item_data_len_def scan_usage_page_def
      scan_usage_def item_key_size_def get_bytes_def)

lemma usage_only_loop:
  "get_usage_loop [0x09, 0x05] 2 0
     \<lparr>usage_page = 0, usage = 0, usage_page_found = False, usage_found = False\<rparr> =
   Some (- 1, \<lparr>usage_page = 0, usage = 5, usage_page_found = False, usage_found = True\<rparr>)"
  by (simp add: get_usage_loop.simps [of _ _ 0] get_usage_loop_end
      scan_item_def read_at_def item_data_len_def scan_usage_page_def
      scan_usage_def item_key_size_def get_bytes_def)

lemma vendor_page_loop:
  "get_usage_loop [0x06, 0x00, 0xFF] 3 0
     \<lparr>usage_page = 0, usage = 0, usage_page_found = False, usage_found = False\<rparr> =
   Some (- 1, \<lparr>usage_page = 0xFF00, usage = 0, usage_page_found = True,
               usage_found = False\<rparr>)"
  by (simp add: get_usage_loop.simps [of _ _ 0] get_usage_loop_end
      scan_item_def read_at_def item_data_len_def scan_usage_page_def
      scan_usage_def item_key_size_def get_bytes_def)

text \<open>
  A descriptor that is one Usage item (usage 5): the scan fails, the usage page is still
  zero and the usage is 5. A descriptor that is one Usage Page item of two bytes (vendor
  page \<open>0xFF00\<close>): the scan fails and the usage page is \<open>0xFF00\<close>, the value of the item
  at offset 0.
\<close>

theorem failing_scan_keeps_unfound_output_witness:
  "get_usage [0x09, 0x05] 2 0 0 = Some (- 1, 0, 5) \<and>
   fill_device_info_usage 2 [0x09, 0x05] = Some (0, 5) \<and>
   get_usage [0x06, 0x00, 0xFF] 3 0 0 = Some (- 1, 0xFF00, 0) \<and>
   length [0x06, 0x00, 0xFF :: byte] = 3 \<and>
   spec_usage_page_items [0x06, 0x00, 0xFF] 0 = [0] \<and>
   spec_usage_items [0x06, 0x00, 0xFF] 0 = [] \<and>
   spec_item_value [0x06, 0x00, 0xFF] 0 = 0xFF00"
proof -
  have o: "spec_item_offsets [0x06, 0x00, 0xFF] 0 = [0]"
    by (simp add: spec_item_offsets_step spec_item_offsets_end spec_item_length_def spec_short_data_len_def)
  have p: "spec_usage_page_items [0x06, 0x00, 0xFF] 0 = [0]"
    "spec_usage_items [0x06, 0x00, 0xFF] 0 = []"
    by (simp_all add: spec_usage_page_items_def spec_usage_items_def o)
  have l: "length [0x06, 0x00, 0xFF :: byte] = 3" by simp
  from failing_scan_keeps_unfound_output [OF vendor_page_loop] l p
  have a: "get_usage [0x06, 0x00, 0xFF] 3 0 0 = Some (- 1, 0xFF00, 0)"
    and b: "spec_item_value [0x06, 0x00, 0xFF] 0 = 0xFF00"
    by simp_all
  from failing_scan_keeps_unfound_output [OF usage_only_loop]
  have c: "get_usage [0x09, 0x05] 2 0 0 = Some (- 1, 0, 5) \<and>
      fill_device_info_usage 2 [0x09, 0x05] = Some (0, 5)"
    by simp
  from a b c l p show ?thesis by blast
qed

text \<open>
  Claim C5 as stated fails: on the failing scan of the descriptor \<open>05 01\<close> the usage
  page output, zero at the call, is 1 afterwards, and \<^verbatim>\<open>fill_device_info_usage\<close>
  stores it.
\<close>

theorem failing_scan_modifies_usage_page:
  "get_usage [0x05, 0x01] 2 0 0 = Some (- 1, 1, 0) \<and>
   fill_device_info_usage 2 [0x05, 0x01] = Some (1, 0)"
  by (simp add: get_usage_def fill_device_info_usage_def usage_page_only_loop)

text \<open>
  Claim C6. \<^verbatim>\<open>get_bytes\<close> returns 0 whenever \<open>cur + num_bytes \<ge> len\<close>; a Long Item
  whose length byte is not inside the buffer gets the data length 0; and on a buffer of
  \<open>size\<close> bytes neither \<^verbatim>\<open>get_bytes\<close> nor the scan of \<^verbatim>\<open>get_usage\<close>, started at
  any offset with any variables, reads an index outside the buffer.
\<close>

theorem parser_reads_stay_in_buffer:
  "(len \<le> cur + num_bytes \<longrightarrow> get_bytes rpt len num_bytes cur = Some 0) \<and>
   (length rpt = len \<longrightarrow> get_bytes rpt len num_bytes cur \<noteq> None) \<and>
   (key AND 0xf0 = 0xf0 \<and> sz \<le> i + 1 \<longrightarrow> item_data_len rpt sz i key = Some 0) \<and>
   (length rpt = sz \<longrightarrow> get_usage_loop rpt sz i v \<noteq> None \<and> 
      get_usage rpt sz page0 usage0 \<noteq> None)"
proof -
  have "length rpt = sz \<longrightarrow> get_usage rpt sz page0 usage0 \<noteq> None"
    using get_usage_loop_total [of rpt sz 0]
    by (fastforce simp: get_usage_def split: bind_splits)
  moreover have "length rpt = sz \<longrightarrow> get_usage_loop rpt sz i v \<noteq> None"
    using get_usage_loop_total [of rpt sz i v] by auto
  moreover have "length rpt = len \<longrightarrow> get_bytes rpt len num_bytes cur \<noteq> None"
    using get_bytes_total [of rpt len num_bytes cur] by auto
  moreover have "key AND 0xf0 = 0xf0 \<and> sz \<le> i + 1 \<longrightarrow> item_data_len rpt sz i key = Some 0"
    by (simp add: item_data_len_def)
  ultimately show ?thesis using get_bytes_short [of len cur num_bytes rpt] by blast
qed

theorem parser_reads_stay_in_buffer_witness:
  "get_bytes [0x09, 0x01] 2 2 0 = Some 0 \<and>
   get_bytes [0x09, 0x01] 2 1 0 \<noteq> None \<and>
   item_data_len [0xFE] 1 0 0xFE = Some 0 \<and>
   get_usage_loop [0xFE] 1 0
     \<lparr>usage_page = 0, usage = 0, usage_page_found = False, usage_found = False\<rparr> \<noteq> None \<and>
   get_usage [0xFE] 1 0 0 \<noteq> None"
  using parser_reads_stay_in_buffer [where len = 2 and cur = 0 and num_bytes = 2
      and rpt = "[0x09, 0x01]" and key = "0xFE" and sz = 1 and i = 0]
    parser_reads_stay_in_buffer [where len = 2 and cur = 0 and num_bytes = 1
      and rpt = "[0x09, 0x01]" and key = "0xFE" and sz = 1 and i = 0]
    parser_reads_stay_in_buffer [where len = 1 and cur = 0 and num_bytes = 1
      and rpt = "[0xFE]" and key = "0xFE" and sz = 1 and i = 0
      and v = "\<lparr>usage_page = 0, usage = 0, usage_page_found = False, usage_found = False\<rparr>"
      and ?page0.0 = 0 and ?usage0.0 = 0]
  by simp


subsection \<open>The queue of input reports\<close>

lemma int_of_size_t_small: "n < 2 ^ 31 \<Longrightarrow> int_of_size_t n = int n"
  by (simp add: int_of_size_t_def signed_of_nat signed_take_bit_int_eq_self)

lemma num_queued_length: "num_queued q = length q - 1"
  by (induction q rule: num_queued.induct) auto

lemma return_data_head:
  "input_reports dev = rpt # rest \<Longrightarrow>
   return_data dev data =
     Some (int_of_size_t (min (length rpt) (length data)),
           take (min (length rpt) (length data)) rpt @ drop (min (length rpt) (length data)) data,
           dev\<lparr>input_reports := rest\<rparr>, rpt)"
  by (auto simp: return_data_def Let_def min_def)

lemma queue_report_eq:
  "queue_report dev rpt =
     Some (dev\<lparr>input_reports :=
       (if length (input_reports dev) \<ge> 32 then tl (input_reports dev) @ [rpt]
        else input_reports dev @ [rpt])\<rparr>)"
proof (cases "input_reports dev")
  case Nil
  then show ?thesis by (simp add: queue_report_def)
next
  case (Cons r rs)
  then show ?thesis
    by (auto simp: queue_report_def Let_def num_queued_length return_data_def)
qed

lemma queue_report_length:
  "queue_report dev rpt = Some dev' \<Longrightarrow> length (input_reports dev) \<le> 32 \<Longrightarrow>
   length (input_reports dev') = min (length (input_reports dev) + 1) 32"
  by (auto simp: queue_report_eq)


lemma read_callback_completed:
  "\<not> shutdown_thread dev \<Longrightarrow>
   read_callback dev LIBUSB_TRANSFER_COMPLETED rpt 0 =
     Some (dev\<lparr>input_reports :=
       (if length (input_reports dev) \<ge> 32 then tl (input_reports dev) @ [rpt]
        else input_reports dev @ [rpt])\<rparr>)"
  by (simp add: read_callback_def queue_report_eq)

lemma completed_appended:
  "\<not> shutdown_thread dev \<Longrightarrow> length (input_reports dev) + length rs \<le> 32 \<Longrightarrow>
   background (map completed rs) dev = Some (dev\<lparr>input_reports := input_reports dev @ rs\<rparr>)"
proof (induction rs arbitrary: dev)
  case Nil
  then show ?case by simp
next
  case (Cons r rs)
  let ?dev' = "dev\<lparr>input_reports := input_reports dev @ [r]\<rparr>"
  from Cons.prems have "bg_step (completed r) dev = Some ?dev'"
    by (simp add: completed_def read_callback_completed)
  moreover from Cons.prems have
    "background (map completed rs) ?dev' =
       Some (?dev'\<lparr>input_reports := input_reports ?dev' @ rs\<rparr>)"
    by (intro Cons.IH) simp_all
  ultimately show ?case by simp
qed

text \<open>
  Claim C1 on the code: after 31 completed transfers on a fresh device, with no read in
  between, all 31 reports are queued, the first one included. The test
  \<^verbatim>\<open>num_queued > 30\<close> compares the number of \<^verbatim>\<open>next\<close> pointers followed, one
  less than the number of reports queued before the new one is attached, so that a report
  is dropped only when 32 are queued already.
\<close>

theorem all_of_31_reports_stay_queued:
  "map_option input_reports
     (background (map completed (map numbered_report [1..<32])) fresh_device) =
   Some (map numbered_report [1..<32]) \<and>
   length (map numbered_report [1..<32]) = 31"
proof -
  have "\<not> shutdown_thread fresh_device" "input_reports fresh_device = []"
    by (simp_all add: fresh_device_def)
  then show ?thesis
    using completed_appended [of fresh_device "map numbered_report [1..<32]"] by simp
qed

lemma read_callback_queue_bound:
  assumes "read_callback dev status received submit_res = Some dev'"
    and "length (input_reports dev) \<le> 32"
  shows "length (input_reports dev') \<le> 32"
  using assms
  by (auto simp: read_callback_def queue_report_eq split: if_splits bind_splits)

text \<open>
  The queue holds at most 32 reports: the callback keeps that bound, drops the oldest
  report when 32 are queued, and keeps all of them when 31 are.
\<close>

lemma full_queue_drops_oldest:
  "\<not> shutdown_thread dev \<Longrightarrow> length (input_reports dev) = 32 \<Longrightarrow>
   read_callback dev LIBUSB_TRANSFER_COMPLETED rpt 0 =
     Some (dev\<lparr>input_reports := tl (input_reports dev) @ [rpt]\<rparr>)"
  by (simp add: read_callback_completed)

lemma queue_of_31_keeps_all:
  "\<not> shutdown_thread dev \<Longrightarrow> length (input_reports dev) = 31 \<Longrightarrow>
   read_callback dev LIBUSB_TRANSFER_COMPLETED rpt 0 =
     Some (dev\<lparr>input_reports := input_reports dev @ [rpt]\<rparr>)"
  by (simp add: read_callback_completed)

lemma queue_ok_flags [simp]:
  "queue_ok (dev\<lparr>shutdown_thread := b\<rparr>) = queue_ok dev"
  "queue_ok (dev\<lparr>transfer_loop_finished := b\<rparr>) = queue_ok dev"
  by (simp_all add: queue_ok_def)

lemma queue_ok_queue_report:
  "queue_ok dev \<Longrightarrow> int_sized rpt \<Longrightarrow> queue_report dev rpt = Some dev' \<Longrightarrow> queue_ok dev'"
  by (cases "input_reports dev") (auto simp: queue_report_eq queue_ok_def split: if_splits)

lemma queue_report_total: "\<exists>dev'. queue_report dev rpt = Some dev'"
  by (simp add: queue_report_eq)

lemma read_callback_total: "\<exists>dev'. read_callback dev status received submit_res = Some dev'"
  using queue_report_total [of dev received]
  by (auto simp: read_callback_def)

lemma queue_ok_read_callback:
  "queue_ok dev \<Longrightarrow> int_sized received \<Longrightarrow>
   read_callback dev status received submit_res = Some dev' \<Longrightarrow> queue_ok dev'"
  using queue_ok_queue_report [of dev received]
  by (auto simp: read_callback_def queue_ok_flags split: if_splits bind_splits)

lemma queue_ok_bg_step:
  "queue_ok dev \<Longrightarrow> event_ok e \<Longrightarrow> bg_step e dev = Some dev' \<Longrightarrow> queue_ok dev'"
  by (cases e) (auto simp: queue_ok_flags dest: queue_ok_read_callback)

lemma bg_step_total: "\<exists>dev'. bg_step e dev = Some dev'"
  by (cases e) (simp_all add: read_callback_total)

lemma background_total: "\<exists>dev'. background es dev = Some dev'"
proof (induction es arbitrary: dev)
  case Nil
  show ?case by simp
next
  case (Cons e es)
  obtain d where "bg_step e dev = Some d" using bg_step_total by blast
  with Cons.IH [of d] show ?case by simp
qed

lemma queue_ok_background:
  "queue_ok dev \<Longrightarrow> list_all event_ok es \<Longrightarrow> background es dev = Some dev' \<Longrightarrow>
   queue_ok dev'"
proof (induction es arbitrary: dev)
  case Nil
  then show ?case by simp
next
  case (Cons e es)
  from Cons.prems(3) obtain d where d: "bg_step e dev = Some d" "background es d = Some dev'"
    by (auto split: bind_splits)
  from Cons.prems(1,2) d(1) have "queue_ok d" by (auto dest: queue_ok_bg_step)
  with Cons.IH [OF _ _ d(2)] Cons.prems(2) show ?case by simp
qed

lemma run_wakes_append:
  "run_wakes (us @ vs) dev = run_wakes us dev \<bind> run_wakes vs"
  by (induction us arbitrary: dev) (auto split: bind_splits)

lemma queue_ok_run_wakes:
  "queue_ok dev \<Longrightarrow> wakes_ok ws \<Longrightarrow> run_wakes ws dev = Some dev' \<Longrightarrow> queue_ok dev'"
proof (induction ws arbitrary: dev)
  case Nil
  then show ?case by simp
next
  case (Cons w ws)
  from Cons.prems(3) obtain d where
    d: "background (events w) dev = Some d" "run_wakes ws d = Some dev'"
    by (auto split: bind_splits)
  from Cons.prems(1,2) d(1) have "queue_ok d"
    by (auto simp: wakes_ok_def dest: queue_ok_background)
  with Cons.IH [OF _ _ d(2)] Cons.prems(2) show ?case by (simp add: wakes_ok_def)
qed

subsection \<open>Reading\<close>

lemma deliver_head:
  "input_reports S = rpt # rest \<Longrightarrow>
   deliver S data ws =
     Returned \<lparr>bytes_read = int_of_size_t (min (length rpt) (length data)),
               buffer = take (min (length rpt) (length data)) rpt @
                        drop (min (length rpt) (length data)) data,
               dev_after = S\<lparr>input_reports := rest\<rparr>,
               freed = [rpt], wakes_left = ws\<rparr>"
  by (simp add: deliver_def return_data_head)

lemma deliver_wakes_left: "deliver S data ws = Returned out \<Longrightarrow> wakes_left out = ws"
  by (auto simp: deliver_def split: option.splits)

lemma no_data_wakes_left: "no_data r S data ws = Returned out \<Longrightarrow> wakes_left out = ws"
  by (auto simp: no_data_def)

lemma no_data_fields:
  "no_data r S data ws = Returned out \<Longrightarrow>
   bytes_read out = r \<and> buffer out = data \<and> dev_after out = S \<and> freed out = []"
  by (auto simp: no_data_def)

lemma blocking_wait_wake:
  "input_reports dev = [] \<Longrightarrow> \<not> shutdown_thread dev \<Longrightarrow>
   background (events w) dev = Some dev' \<Longrightarrow>
   blocking_wait dev data (w # ws) = blocking_wait dev' data ws"
  by (subst blocking_wait.simps) simp

lemma blocking_wait_queued:
  "input_reports dev \<noteq> [] \<Longrightarrow> blocking_wait dev data ws = deliver dev data ws"
  by (subst blocking_wait.simps) simp

lemma blocking_wait_returned:
  assumes "blocking_wait dev data ws = Returned out"
  shows "\<exists>used S. ws = used @ wakes_left out \<and> run_wakes used dev = Some S \<and>
           (if input_reports S \<noteq> [] then deliver S data (wakes_left out) = Returned out
            else shutdown_thread S \<and> no_data (- 1) S data (wakes_left out) = Returned out)"
  using assms
proof (induction ws arbitrary: dev)
  case Nil
  then have "input_reports dev \<noteq> [] \<or> shutdown_thread dev"
    by (subst (asm) blocking_wait.simps) (auto split: if_splits)
  with Nil have
    "if input_reports dev \<noteq> [] then deliver dev data [] = Returned out
     else shutdown_thread dev \<and> no_data (- 1) dev data [] = Returned out"
    by (subst (asm) blocking_wait.simps) (auto split: if_splits)
  moreover from this have "wakes_left out = []"
    by (auto dest: deliver_wakes_left no_data_wakes_left split: if_splits)
  ultimately show ?case by (intro exI [of _ "[]"] exI [of _ dev]) simp
next
  case (Cons w ws)
  show ?case
  proof (cases "input_reports dev = [] \<and> \<not> shutdown_thread dev")
    case True
    with Cons.prems obtain dev' where
      b: "background (events w) dev = Some dev'" and
      r: "blocking_wait dev' data ws = Returned out"
      by (subst (asm) blocking_wait.simps) (auto split: option.splits)
    from Cons.IH [OF r] obtain used S where
      u: "ws = used @ wakes_left out" "run_wakes used dev' = Some S"
        "if input_reports S \<noteq> [] then deliver S data (wakes_left out) = Returned out
         else shutdown_thread S \<and> no_data (- 1) S data (wakes_left out) = Returned out"
      by blast
    from u(1,2) b have "w # ws = (w # used) @ wakes_left out"
      "run_wakes (w # used) dev = Some S" by simp_all
    with u(3) show ?thesis by blast
  next
    case False
    with Cons.prems have
      "if input_reports dev \<noteq> [] then deliver dev data (w # ws) = Returned out
       else shutdown_thread dev \<and> no_data (- 1) dev data (w # ws) = Returned out"
      by (subst (asm) blocking_wait.simps) (auto split: if_splits)
    moreover from this have "wakes_left out = w # ws"
      by (auto dest: deliver_wakes_left no_data_wakes_left split: if_splits)
    ultimately show ?thesis by (intro exI [of _ "[]"] exI [of _ dev]) simp
  qed
qed

lemma timed_wait_returned:
  assumes "timed_wait dev data ws = Returned out" and "input_reports dev = []"
  shows "\<exists>used S. ws = used @ wakes_left out \<and> run_wakes used dev = Some S \<and>
           timed_end used S data out"
  using assms
proof (induction ws arbitrary: dev)
  case Nil
  then have "shutdown_thread dev \<and> no_data (- 1) dev data [] = Returned out"
    by (subst (asm) timed_wait.simps) (auto split: if_splits)
  moreover from this have "wakes_left out = []" by (auto dest: no_data_wakes_left)
  ultimately show ?case using Nil.prems(2)
    by (intro exI [of _ "[]"] exI [of _ dev]) (simp add: timed_end_def)
next
  case (Cons w ws)
  show ?case
  proof (cases "shutdown_thread dev")
    case True
    with Cons.prems have n: "no_data (- 1) dev data (w # ws) = Returned out"
      by (subst (asm) timed_wait.simps) (auto split: if_splits)
    then have "wakes_left out = w # ws" by (rule no_data_wakes_left)
    with n True Cons.prems(2) show ?thesis
      by (intro exI [of _ "[]"] exI [of _ dev]) (simp add: timed_end_def)
  next
    case False
    with Cons.prems obtain dev' where
      b: "background (events w) dev = Some dev'" and
      r: "(if wait_res w = WAIT_OK then
             (if input_reports dev' \<noteq> [] then deliver dev' data ws
              else timed_wait dev' data ws)
           else if wait_res w = WAIT_TIMED_OUT then no_data 0 dev' data ws
           else no_data (- 1) dev' data ws) = Returned out"
      by (subst (asm) timed_wait.simps) (auto split: option.splits)
    have one: "run_wakes [w] dev = Some dev'" using b by simp
    show ?thesis
    proof (cases "wait_res w = WAIT_OK \<and> input_reports dev' = []")
      case True
      with r have r': "timed_wait dev' data ws = Returned out" by simp
      from Cons.IH [OF r'] True obtain used S where
        u: "ws = used @ wakes_left out" "run_wakes used dev' = Some S"
          "timed_end used S data out"
        by blast
      from u(1,2) b have "w # ws = (w # used) @ wakes_left out"
        "run_wakes (w # used) dev = Some S" by simp_all
      moreover from u(3) True have "timed_end (w # used) S data out"
        by (auto simp: timed_end_def)
      ultimately show ?thesis by blast
    next
      case False
      from r False have "wakes_left out = ws"
        by (auto dest: deliver_wakes_left no_data_wakes_left split: if_splits)
      moreover from r False this have "timed_end [w] dev' data out"
        by (cases "wait_res w") (auto simp: timed_end_def split: if_splits)
      ultimately show ?thesis using one
        by (intro exI [of _ "[w]"] exI [of _ dev']) simp
    qed
  qed
qed


lemma hid_read_timeout_end:
  assumes "hid_read_timeout dev data ms ws = Returned out"
  shows "\<exists>used S. ws = used @ wakes_left out \<and> run_wakes used dev = Some S \<and>
           call_end ms used S data out"
proof -
  consider (queued) "input_reports dev \<noteq> []"
    | (gone) "input_reports dev = []" "shutdown_thread dev"
    | (blocking) "input_reports dev = []" "\<not> shutdown_thread dev" "ms = - 1"
    | (timed) "input_reports dev = []" "\<not> shutdown_thread dev" "ms \<noteq> - 1" "0 < ms"
    | (poll) "input_reports dev = []" "\<not> shutdown_thread dev" "ms \<noteq> - 1" "\<not> 0 < ms"
    by blast
  then show ?thesis
  proof cases
    case queued
    with assms have d: "deliver dev data ws = Returned out" by (simp add: hid_read_timeout_def)
    then have "wakes_left out = ws" by (rule deliver_wakes_left)
    with d queued show ?thesis
      by (intro exI [of _ "[]"] exI [of _ dev]) (simp add: call_end_def)
  next
    case gone
    with assms have d: "no_data (- 1) dev data ws = Returned out"
      by (simp add: hid_read_timeout_def)
    then have "wakes_left out = ws" by (rule no_data_wakes_left)
    with d gone show ?thesis
      by (intro exI [of _ "[]"] exI [of _ dev]) (simp add: call_end_def)
  next
    case blocking
    with assms have "blocking_wait dev data ws = Returned out"
      by (simp add: hid_read_timeout_def)
    from blocking_wait_returned [OF this] blocking(3) show ?thesis
      by (auto simp: call_end_def split: if_splits)
  next
    case timed
    with assms have "timed_wait dev data ws = Returned out"
      by (simp add: hid_read_timeout_def)
    from timed_wait_returned [OF this timed(1)] obtain used S where
      u: "ws = used @ wakes_left out" "run_wakes used dev = Some S" "timed_end used S data out"
      by blast
    from u(3) timed(4) have "call_end ms used S data out"
      by (auto simp: timed_end_def call_end_def)
    with u(1,2) show ?thesis by blast
  next
    case poll
    with assms have d: "no_data 0 dev data ws = Returned out"
      by (simp add: hid_read_timeout_def)
    then have "wakes_left out = ws" by (rule no_data_wakes_left)
    with d poll show ?thesis
      by (intro exI [of _ "[]"] exI [of _ dev]) (simp add: call_end_def)
  qed
qed

lemma hid_read_timeout_queued:
  "input_reports dev = rpt # rest \<Longrightarrow>
   hid_read_timeout dev data ms ws =
     Returned \<lparr>bytes_read = int_of_size_t (min (length rpt) (length data)),
               buffer = take (min (length rpt) (length data)) rpt @
                        drop (min (length rpt) (length data)) data,
               dev_after = dev\<lparr>input_reports := rest\<rparr>,
               freed = [rpt], wakes_left = ws\<rparr>"
  by (simp add: hid_read_timeout_def deliver_head)



lemma fresh_ok: "queue_ok fresh_device" "input_reports fresh_device = []"
  "\<not> shutdown_thread fresh_device"
  by (simp_all add: queue_ok_def fresh_device_def)




text \<open>
  Claim C3. A read that finds the report \<open>rpt\<close> at the head of the queue copies
  \<open>min (length rpt) (length data)\<close> bytes of it to the start of the caller's buffer,
  returns that number, frees \<open>rpt\<close> and leaves the rest of the queue as it is; this is what
  \<^verbatim>\<open>return_data\<close> does and what \<^verbatim>\<open>hid_read_timeout\<close> does when the queue is not
  empty at entry. Every call of \<^verbatim>\<open>hid_read_timeout\<close> that returns has either consumed
  nothing (it returns 0 or -1 and leaves the buffer alone) or has consumed exactly the
  oldest report of the queue as it stood after the wake-ups the call used.
\<close>

theorem read_consumes_oldest_report:
  "(input_reports dev = rpt # rest \<and> int_sized rpt \<longrightarrow>
      return_data dev data =
        Some (int (min (length rpt) (length data)),
              take (min (length rpt) (length data)) rpt @
                drop (min (length rpt) (length data)) data,
              dev\<lparr>input_reports := rest\<rparr>, rpt) \<and>
      hid_read_timeout dev data ms ws =
        Returned \<lparr>bytes_read = int (min (length rpt) (length data)),
                  buffer = take (min (length rpt) (length data)) rpt @
                           drop (min (length rpt) (length data)) data,
                  dev_after = dev\<lparr>input_reports := rest\<rparr>,
                  freed = [rpt], wakes_left = ws\<rparr>) \<and>
   (hid_read_timeout dev data ms ws = Returned out \<and> queue_ok dev \<and> wakes_ok ws \<longrightarrow>
      (freed out = [] \<and> buffer out = data \<and> (bytes_read out = 0 \<or> bytes_read out = - 1)) \<or>
      (\<exists>used S rpt' rest'. ws = used @ wakes_left out \<and> run_wakes used dev = Some S \<and>
         input_reports S = rpt' # rest' \<and>
         out = \<lparr>bytes_read = int (min (length rpt') (length data)),
                 buffer = take (min (length rpt') (length data)) rpt' @
                          drop (min (length rpt') (length data)) data,
                 dev_after = S\<lparr>input_reports := rest'\<rparr>,
                 freed = [rpt'], wakes_left = wakes_left out\<rparr>))"
proof (intro conjI impI; (elim conjE)?)
  assume q: "input_reports dev = rpt # rest" and "int_sized rpt"
  then have c: "int_of_size_t (min (length rpt) (length data)) =
      int (min (length rpt) (length data))"
    by (intro int_of_size_t_small) (simp add: int_sized_def)
  show "return_data dev data =
        Some (int (min (length rpt) (length data)),
              take (min (length rpt) (length data)) rpt @
                drop (min (length rpt) (length data)) data,
              dev\<lparr>input_reports := rest\<rparr>, rpt)"
    using return_data_head [OF q, of data] c by simp
  show "hid_read_timeout dev data ms ws =
        Returned \<lparr>bytes_read = int (min (length rpt) (length data)),
                  buffer = take (min (length rpt) (length data)) rpt @
                           drop (min (length rpt) (length data)) data,
                  dev_after = dev\<lparr>input_reports := rest\<rparr>,
                  freed = [rpt], wakes_left = ws\<rparr>"
    using hid_read_timeout_queued [OF q, of data ms ws] c by simp
next
  assume r: "hid_read_timeout dev data ms ws = Returned out"
    and ok: "queue_ok dev" "wakes_ok ws"
  from hid_read_timeout_end [OF r] obtain used S where
    u: "ws = used @ wakes_left out" "run_wakes used dev = Some S" "call_end ms used S data out"
    by blast
  from u(1) ok(2) have "wakes_ok used" by (simp add: wakes_ok_def)
  with ok(1) u(2) have okS: "queue_ok S" by (auto dest: queue_ok_run_wakes)
  from u(3) consider
    (none) r0 where "no_data r0 S data (wakes_left out) = Returned out" "r0 = 0 \<or> r0 = - 1"
    | (some) "input_reports S \<noteq> []" "deliver S data (wakes_left out) = Returned out"
    by (auto simp: call_end_def split: if_splits)
  then show "(freed out = [] \<and> buffer out = data \<and> (bytes_read out = 0 \<or> bytes_read out = - 1)) \<or>
      (\<exists>used S rpt' rest'. ws = used @ wakes_left out \<and> run_wakes used dev = Some S \<and>
         input_reports S = rpt' # rest' \<and>
         out = \<lparr>bytes_read = int (min (length rpt') (length data)),
                 buffer = take (min (length rpt') (length data)) rpt' @
                          drop (min (length rpt') (length data)) data,
                 dev_after = S\<lparr>input_reports := rest'\<rparr>,
                 freed = [rpt'], wakes_left = wakes_left out\<rparr>)"
  proof cases
    case none
    then show ?thesis by (auto dest!: no_data_fields)
  next
    case some
    then obtain rpt' rest' where q: "input_reports S = rpt' # rest'"
      by (cases "input_reports S") auto
    with okS have "length rpt' < 2 ^ 31" by (simp add: queue_ok_def int_sized_def)
    then have c: "int_of_size_t (min (length rpt') (length data)) =
        int (min (length rpt') (length data))"
      by (intro int_of_size_t_small) simp
    from some(2) have "out = \<lparr>bytes_read = int (min (length rpt') (length data)),
                 buffer = take (min (length rpt') (length data)) rpt' @
                          drop (min (length rpt') (length data)) data,
                 dev_after = S\<lparr>input_reports := rest'\<rparr>,
                 freed = [rpt'], wakes_left = wakes_left out\<rparr>"
      by (simp add: deliver_head [OF q] c)
    with u(1,2) q show ?thesis by blast
  qed
qed

text \<open>
  A buffer of two bytes and the reports \<open>01 02 03\<close> and \<open>04 05\<close> queued: the read returns
  2 with \<open>01 02\<close>, and \<open>04 05\<close> stays. A blocking read on an empty queue is woken by the
  arrival of the report \<open>07\<close> and returns it.
\<close>

theorem read_consumes_oldest_report_witness:
  "return_data (fresh_device\<lparr>input_reports := [[1, 2, 3], [4, 5]]\<rparr>) [9, 9] =
     Some (2, [1, 2], fresh_device\<lparr>input_reports := [[4, 5]]\<rparr>, [1, 2, 3]) \<and>
   hid_read_timeout (fresh_device\<lparr>input_reports := [[1, 2, 3], [4, 5]]\<rparr>) [9, 9] 0 [] =
     Returned \<lparr>bytes_read = 2, buffer = [1, 2],
               dev_after = fresh_device\<lparr>input_reports := [[4, 5]]\<rparr>,
               freed = [[1, 2, 3]], wakes_left = []\<rparr> \<and>
   hid_read_timeout fresh_device [9, 9, 9] (- 1) [Wake WAIT_OK [completed [7]]] =
     Returned \<lparr>bytes_read = 1, buffer = [7, 9, 9], dev_after = fresh_device,
               freed = [[7]], wakes_left = []\<rparr> \<and>
   (\<exists>S rest'. run_wakes [Wake WAIT_OK [completed [7]]] fresh_device = Some S \<and>
        input_reports S = [7] # rest')"
proof -
  let ?dev = "fresh_device\<lparr>input_reports := [[1, 2, 3], [4, 5]]\<rparr>"
  let ?ws = "[Wake WAIT_OK [completed [7]]]"
  let ?out = "\<lparr>bytes_read = 1, buffer = [7, 9, 9] :: byte list, dev_after = fresh_device,
               freed = [[7]], wakes_left = []\<rparr>"
  have a: "input_reports ?dev = [1, 2, 3] # [[4, 5]] \<and> int_sized [1, 2, 3 :: byte]"
    by (simp add: int_sized_def)
  have cb: "background [completed [7]] fresh_device =
      Some (fresh_device\<lparr>input_reports := [[7]]\<rparr>)"
    by (simp add: completed_def read_callback_completed fresh_ok)
  have dl: "deliver (fresh_device\<lparr>input_reports := [[7]]\<rparr>) [9, 9, 9] [] = Returned ?out"
    by (simp add: deliver_def return_data_def int_of_size_t_def fresh_device_def)
  have bw: "blocking_wait fresh_device [9, 9, 9] ?ws =
      blocking_wait (fresh_device\<lparr>input_reports := [[7]]\<rparr>) [9, 9, 9] []"
    by (rule blocking_wait_wake) (simp_all only: fresh_ok wake.sel cb not_False_eq_True)
  have r: "hid_read_timeout fresh_device [9, 9, 9] (- 1) ?ws = Returned ?out"
    by (simp add: hid_read_timeout_def fresh_ok bw blocking_wait_queued dl)
  have b: "queue_ok fresh_device \<and> wakes_ok ?ws"
    by (simp add: fresh_ok wakes_ok_def completed_def int_sized_def)
  from read_consumes_oldest_report [of fresh_device _ _ "[9, 9, 9]" "- 1" ?ws ?out] r b
  have "\<exists>used S rpt' rest'. ?ws = used @ wakes_left ?out \<and>
      run_wakes used fresh_device = Some S \<and> input_reports S = rpt' # rest' \<and>
      freed ?out = [rpt']"
    by (simp, metis read_outcome.select_convs(4))
  then have e: "\<exists>S rest'. run_wakes ?ws fresh_device = Some S \<and> input_reports S = [7] # rest'"
    by auto
  show ?thesis
    using read_consumes_oldest_report [of ?dev "[1, 2, 3]" "[[4, 5]]" "[9, 9]" 0 "[]"] a r e
    by simp
qed

subsection \<open>Xbox controllers, writing and closing\<close>

lemma vendor_listed_set: "vendor_listed vendor_id vs \<longleftrightarrow> uint vendor_id \<in> set vs"
  by (induction vs) auto

lemma uint_byte_eq: "uint (b :: byte) = uint (c :: byte) \<longleftrightarrow> b = c"
  by (simp add: word_uint_eq_iff)

lemma uint_vendor_eq: "uint (b :: 16 word) = uint (c :: 16 word) \<longleftrightarrow> b = c"
  by (simp add: word_uint_eq_iff)

text \<open>
  Claim C8. \<^verbatim>\<open>is_xbox360\<close> returns 1 exactly for the vendor specific class, subclass 93,
  protocol 1 or 129 and a vendor of the table, and 0 otherwise; with these interface
  fields and protocol 1 it returns 1 for the vendor \<open>0x045e\<close> and 0 for \<open>0x1111\<close>.
\<close>

theorem is_xbox360_detects:
  "is_xbox360 vendor_id intf_desc =
     (if bInterfaceClass intf_desc = LIBUSB_CLASS_VENDOR_SPEC \<and>
         bInterfaceSubClass intf_desc = 93 \<and>
         (bInterfaceProtocol intf_desc = 1 \<or> bInterfaceProtocol intf_desc = 129) \<and>
         uint vendor_id \<in> set xbox360_supported_vendors
      then 1 else 0) \<and>
   is_xbox360 0x045e
     (intf_desc\<lparr>bInterfaceClass := LIBUSB_CLASS_VENDOR_SPEC, bInterfaceSubClass := 93,
                bInterfaceProtocol := 1\<rparr>) = 1 \<and>
   is_xbox360 0x1111
     (intf_desc\<lparr>bInterfaceClass := LIBUSB_CLASS_VENDOR_SPEC, bInterfaceSubClass := 93,
                bInterfaceProtocol := 1\<rparr>) = 0"
proof -
  have s: "uint (bInterfaceSubClass intf_desc) = 93 \<longleftrightarrow> bInterfaceSubClass intf_desc = 93"
    using uint_byte_eq [of "bInterfaceSubClass intf_desc" 93] by simp
  have p1: "uint (bInterfaceProtocol intf_desc) = 1 \<longleftrightarrow> bInterfaceProtocol intf_desc = 1"
    using uint_byte_eq [of "bInterfaceProtocol intf_desc" 1] by simp
  have p2: "uint (bInterfaceProtocol intf_desc) = 129 \<longleftrightarrow> bInterfaceProtocol intf_desc = 129"
    using uint_byte_eq [of "bInterfaceProtocol intf_desc" 129] by simp
  have 1: "is_xbox360 vendor_id intf_desc =
     (if bInterfaceClass intf_desc = LIBUSB_CLASS_VENDOR_SPEC \<and>
         bInterfaceSubClass intf_desc = 93 \<and>
         (bInterfaceProtocol intf_desc = 1 \<or> bInterfaceProtocol intf_desc = 129) \<and>
         uint vendor_id \<in> set xbox360_supported_vendors
      then 1 else 0)"
    by (simp add: is_xbox360_def Let_def vendor_listed_set s p1 p2)
  have 2: "is_xbox360 0x045e
     (intf_desc\<lparr>bInterfaceClass := LIBUSB_CLASS_VENDOR_SPEC, bInterfaceSubClass := 93,
                bInterfaceProtocol := 1\<rparr>) = 1"
    by (simp add: is_xbox360_def xbox360_supported_vendors_def)
  have 3: "is_xbox360 0x1111
     (intf_desc\<lparr>bInterfaceClass := LIBUSB_CLASS_VENDOR_SPEC, bInterfaceSubClass := 93,
                bInterfaceProtocol := 1\<rparr>) = 0"
    by (simp add: is_xbox360_def xbox360_supported_vendors_def)
  from 1 2 3 show ?thesis by blast
qed

text \<open>
  Claim C10. \<^verbatim>\<open>hid_close\<close> with a null pointer has no effect at all: no flag set, no
  transfer cancelled, no thread joined, no interface released, nothing freed; with a
  device it has effects.
\<close>

theorem hid_close_null_is_noop:
  "hid_close None = [] \<and> hid_close (Some dev) \<noteq> []"
  by (simp add: hid_close_def)

text \<open>
  Claim C9 as stated fails: on the interrupt endpoint the return value is what the USB
  library reports as transferred, plus one. A write of four bytes with report ID 0 for
  which the library reports two of the three payload bytes returns 3, not 4.
\<close>

theorem short_write_returns_fewer_bytes:
  "hid_write short_transfer (fresh_device\<lparr>output_endpoint := 1\<rparr>) (Some [0, 1, 2, 3]) =
     (3, [Interrupt_transfer 1 [1, 2, 3] 3 1000])"
  by (simp add: hid_write_def fresh_device_def short_transfer_def int_of_size_t_def)

text \<open>
  Claim C7 as stated fails: for the interface 1 at its descriptor of alternate setting 0
  the call sets alternate setting 0, not 1.
\<close>

theorem xboxone_other_interface_gets_setting_0:
  "init_xboxone claim_succeeds 0x045e 0x02ea [[xboxone_interface 1 0]] =
     [Claim_interface 1, Set_interface_alt_setting 1 0, Release_interface 1]"
  by (simp add: init_xboxone_def xboxone_altsetting_def xboxone_interface_def
      claim_succeeds_def LIBUSB_CLASS_VENDOR_SPEC_def)


lemma xboxone_altsetting_set:
  assumes "Set_interface_alt_setting n a \<in> set (xboxone_altsetting claim idVendor d)"
  shows "(n = 0 \<and> a = 1 \<and> idVendor = 0x045e) \<or> (n \<noteq> 0 \<and> a = 0)"
proof -
  have z: "uint (bInterfaceNumber d) = 0 \<longleftrightarrow> bInterfaceNumber d = 0"
    using uint_byte_eq [of "bInterfaceNumber d" 0] by simp
  have v: "uint idVendor = 0x045e \<longleftrightarrow> idVendor = 0x045e"
    using uint_vendor_eq [of idVendor "0x045e"] by simp
  from assms show ?thesis
    by (auto simp: xboxone_altsetting_def Let_def z v split: if_splits)
qed

lemma xboxone_altsetting_selected:
  assumes "bInterfaceClass d = LIBUSB_CLASS_VENDOR_SPEC" "bInterfaceSubClass d = 71"
    "bInterfaceProtocol d = 208"
    "(bInterfaceNumber d = 0 \<and> bAlternateSetting d = 1 \<and> idVendor = 0x045e) \<or>
     (bInterfaceNumber d \<noteq> 0 \<and> bAlternateSetting d = 0)"
  shows "xboxone_altsetting claim idVendor d =
     (if claim (uint (bInterfaceNumber d)) < 0
      then [Claim_interface (uint (bInterfaceNumber d))]
      else [Claim_interface (uint (bInterfaceNumber d)),
            Set_interface_alt_setting (uint (bInterfaceNumber d)) (uint (bAlternateSetting d)),
            Release_interface (uint (bInterfaceNumber d))])"
  using assms by (auto simp: xboxone_altsetting_def Let_def)

lemma xboxone_altsetting_exact:
  "xboxone_altsetting claim idVendor d =
     (if bInterfaceClass d = LIBUSB_CLASS_VENDOR_SPEC \<and> bInterfaceSubClass d = 71 \<and>
         bInterfaceProtocol d = 208 \<and>
         ((bInterfaceNumber d = 0 \<and> bAlternateSetting d = 1 \<and> idVendor = 0x045e) \<or>
          (bInterfaceNumber d \<noteq> 0 \<and> bAlternateSetting d = 0))
      then (if claim (uint (bInterfaceNumber d)) < 0
            then [Claim_interface (uint (bInterfaceNumber d))]
            else [Claim_interface (uint (bInterfaceNumber d)),
                  Set_interface_alt_setting (uint (bInterfaceNumber d))
                    (uint (bAlternateSetting d)),
                  Release_interface (uint (bInterfaceNumber d))])
      else [])"
proof -
  have s: "uint (bInterfaceSubClass d) = 71 \<longleftrightarrow> bInterfaceSubClass d = 71"
    using uint_byte_eq [of "bInterfaceSubClass d" 71] by simp
  have p: "uint (bInterfaceProtocol d) = 208 \<longleftrightarrow> bInterfaceProtocol d = 208"
    using uint_byte_eq [of "bInterfaceProtocol d" 208] by simp
  have v: "uint idVendor = 0x045e \<longleftrightarrow> idVendor = 0x045e"
    using uint_vendor_eq [of idVendor "0x045e"] by simp
  show ?thesis
    by (auto simp: xboxone_altsetting_def Let_def s p v)
qed

text \<open>
  Claim C7, amended. Every alternate setting \<^verbatim>\<open>init_xboxone\<close> selects is setting 1 of
  interface 0, and then the vendor is Microsoft (\<open>0x045e\<close>), or setting 0 of another
  interface. For every descriptor of the configuration with the vendor specific class,
  subclass 71 and protocol 208 that is the descriptor of setting 1 of interface 0 (vendor
  Microsoft) or of setting 0 of another interface (any vendor), the calls are: claim the
  interface, set the alternate setting of that descriptor, release the interface; or the
  claim alone when it fails. These are all the calls, in the order of the descriptors:
  a failed claim is followed by no set and no release, and no other descriptor causes a
  call.
\<close>

theorem init_xboxone_alt_settings:
  "(Set_interface_alt_setting n a \<in> set (init_xboxone claim idVendor idProduct conf_desc) \<longrightarrow>
      (n = 0 \<and> a = 1 \<and> idVendor = 0x045e) \<or> (n \<noteq> 0 \<and> a = 0)) \<and>
   (intf \<in> set conf_desc \<and> d \<in> set intf \<and>
    bInterfaceClass d = LIBUSB_CLASS_VENDOR_SPEC \<and> bInterfaceSubClass d = 71 \<and>
    bInterfaceProtocol d = 208 \<and>
    ((bInterfaceNumber d = 0 \<and> bAlternateSetting d = 1 \<and> idVendor = 0x045e) \<or>
     (bInterfaceNumber d \<noteq> 0 \<and> bAlternateSetting d = 0)) \<longrightarrow>
      (\<exists>before after. init_xboxone claim idVendor idProduct conf_desc =
         before @
         (if claim (uint (bInterfaceNumber d)) < 0
          then [Claim_interface (uint (bInterfaceNumber d))]
          else [Claim_interface (uint (bInterfaceNumber d)),
                Set_interface_alt_setting (uint (bInterfaceNumber d))
                  (uint (bAlternateSetting d)),
                Release_interface (uint (bInterfaceNumber d))]) @
         after)) \<and>
   init_xboxone claim idVendor idProduct conf_desc =
     concat (map
       (\<lambda>d. if bInterfaceClass d = LIBUSB_CLASS_VENDOR_SPEC \<and> bInterfaceSubClass d = 71 \<and>
                bInterfaceProtocol d = 208 \<and>
                ((bInterfaceNumber d = 0 \<and> bAlternateSetting d = 1 \<and> idVendor = 0x045e) \<or>
                 (bInterfaceNumber d \<noteq> 0 \<and> bAlternateSetting d = 0))
             then (if claim (uint (bInterfaceNumber d)) < 0
                   then [Claim_interface (uint (bInterfaceNumber d))]
                   else [Claim_interface (uint (bInterfaceNumber d)),
                         Set_interface_alt_setting (uint (bInterfaceNumber d))
                           (uint (bAlternateSetting d)),
                         Release_interface (uint (bInterfaceNumber d))])
             else [])
       (concat conf_desc))"
proof (intro conjI impI; (elim conjE)?)
  assume "Set_interface_alt_setting n a \<in> set (init_xboxone claim idVendor idProduct conf_desc)"
  then obtain d where "Set_interface_alt_setting n a \<in> set (xboxone_altsetting claim idVendor d)"
    by (auto simp: init_xboxone_def)
  then show "(n = 0 \<and> a = 1 \<and> idVendor = 0x045e) \<or> (n \<noteq> 0 \<and> a = 0)"
    by (rule xboxone_altsetting_set)
next
  assume m: "intf \<in> set conf_desc" "d \<in> set intf"
    and k: "bInterfaceClass d = LIBUSB_CLASS_VENDOR_SPEC" "bInterfaceSubClass d = 71"
      "bInterfaceProtocol d = 208"
      "(bInterfaceNumber d = 0 \<and> bAlternateSetting d = 1 \<and> idVendor = 0x045e) \<or>
       (bInterfaceNumber d \<noteq> 0 \<and> bAlternateSetting d = 0)"
  let ?calls = "if claim (uint (bInterfaceNumber d)) < 0
          then [Claim_interface (uint (bInterfaceNumber d))]
          else [Claim_interface (uint (bInterfaceNumber d)),
                Set_interface_alt_setting (uint (bInterfaceNumber d))
                  (uint (bAlternateSetting d)),
                Release_interface (uint (bInterfaceNumber d))]"
  from m(1) obtain c1 c2 where c: "conf_desc = c1 @ intf # c2" by (auto dest: split_list)
  from m(2) obtain i1 i2 where i: "intf = i1 @ d # i2" by (auto dest: split_list)
  have x: "xboxone_altsetting claim idVendor d = ?calls"
    using k by (rule xboxone_altsetting_selected)
  have "init_xboxone claim idVendor idProduct conf_desc =
      (init_xboxone claim idVendor idProduct c1 @
         concat (map (xboxone_altsetting claim idVendor) i1)) @
      ?calls @
      (concat (map (xboxone_altsetting claim idVendor) i2) @
         init_xboxone claim idVendor idProduct c2)"
    unfolding c i init_xboxone_def by (simp add: x)
  then show "\<exists>before after. init_xboxone claim idVendor idProduct conf_desc =
      before @ ?calls @ after"
    by blast
next
  let ?f = "\<lambda>d. if bInterfaceClass d = LIBUSB_CLASS_VENDOR_SPEC \<and> bInterfaceSubClass d = 71 \<and>
                bInterfaceProtocol d = 208 \<and>
                ((bInterfaceNumber d = 0 \<and> bAlternateSetting d = 1 \<and> idVendor = 0x045e) \<or>
                 (bInterfaceNumber d \<noteq> 0 \<and> bAlternateSetting d = 0))
             then (if claim (uint (bInterfaceNumber d)) < 0
                   then [Claim_interface (uint (bInterfaceNumber d))]
                   else [Claim_interface (uint (bInterfaceNumber d)),
                         Set_interface_alt_setting (uint (bInterfaceNumber d))
                           (uint (bAlternateSetting d)),
                         Release_interface (uint (bInterfaceNumber d))])
             else []"
  have e: "xboxone_altsetting claim idVendor = ?f"
    by (rule ext) (rule xboxone_altsetting_exact)
  have "init_xboxone claim idVendor idProduct conf_desc =
      concat (map (xboxone_altsetting claim idVendor) (concat conf_desc))"
    unfolding init_xboxone_def by (induction conf_desc) simp_all
  also have "\<dots> = concat (map ?f (concat conf_desc))"
    by (simp only: e)
  finally show "init_xboxone claim idVendor idProduct conf_desc =
      concat (map ?f (concat conf_desc))" .
qed

text \<open>
  A Microsoft controller with two interfaces of two alternate settings each: interface 0
  is set to 1 and interface 1 to 0; when the claims fail, the two claims are the only
  calls.
\<close>

theorem init_xboxone_alt_settings_witness:
  "init_xboxone claim_succeeds 0x045e 0x02ea
     [[xboxone_interface 0 0, xboxone_interface 0 1],
      [xboxone_interface 1 0, xboxone_interface 1 1]] =
     [Claim_interface 0, Set_interface_alt_setting 0 1, Release_interface 0,
      Claim_interface 1, Set_interface_alt_setting 1 0, Release_interface 1] \<and>
   (\<exists>before after.
      init_xboxone claim_succeeds 0x045e 0x02ea
        [[xboxone_interface 0 0, xboxone_interface 0 1],
         [xboxone_interface 1 0, xboxone_interface 1 1]] =
      before @
      [Claim_interface 1, Set_interface_alt_setting 1 0, Release_interface 1] @ after) \<and>
   init_xboxone claim_fails 0x045e 0x02ea
     [[xboxone_interface 0 0, xboxone_interface 0 1],
      [xboxone_interface 1 0, xboxone_interface 1 1]] =
     [Claim_interface 0, Claim_interface 1]"
proof -
  let ?conf = "[[xboxone_interface 0 0, xboxone_interface 0 1],
      [xboxone_interface 1 0, xboxone_interface 1 1]]"
  have 1: "init_xboxone claim_succeeds 0x045e 0x02ea ?conf =
     [Claim_interface 0, Set_interface_alt_setting 0 1, Release_interface 0,
      Claim_interface 1, Set_interface_alt_setting 1 0, Release_interface 1]"
    using init_xboxone_alt_settings [where claim = claim_succeeds and idVendor = "0x045e"
        and idProduct = "0x02ea" and conf_desc = ?conf]
    by (simp add: xboxone_interface_def claim_succeeds_def)
  have 2: "\<exists>before after. init_xboxone claim_succeeds 0x045e 0x02ea ?conf =
      before @
      [Claim_interface 1, Set_interface_alt_setting 1 0, Release_interface 1] @ after"
    unfolding 1
    by (intro exI [of _ "[Claim_interface 0, Set_interface_alt_setting 0 1,
          Release_interface 0]"] exI [of _ "[]"]) simp
  have 3: "init_xboxone claim_fails 0x045e 0x02ea ?conf =
     [Claim_interface 0, Claim_interface 1]"
    using init_xboxone_alt_settings [where claim = claim_fails and idVendor = "0x045e"
        and idProduct = "0x02ea" and conf_desc = ?conf]
    by (simp add: xboxone_interface_def claim_fails_def)
  from 1 2 3 show ?thesis by blast
qed

text \<open>
  Claim C9, amended. A write whose first byte is the report ID 0, on a device with no
  quirk flag set, asks for one transfer of the bytes after the first with their number as
  length (narrowed to 16 bits for a control transfer, to \<^verbatim>\<open>int\<close> for an interrupt
  transfer; the number itself up to 65535 bytes). It returns -1 if the transfer fails;
  otherwise the original length on the control endpoint, and one more than the number of
  bytes the USB library reports as transferred on the interrupt endpoint, which is the
  original length when the library reports the whole payload.
\<close>

theorem hid_write_strips_report_id_0:
  assumes "\<not> skip_output_report_id dev" and "\<not> no_skip_output_report_id dev"
    and "\<not> no_output_reports_on_intr_ep dev"
  shows "(output_endpoint dev \<le> 0 \<longrightarrow>
            hid_write usb dev (Some (0 # rest)) =
              (if res (usb (Control_transfer 0x21 0x09 0x200 (word_of_int (interface dev))
                              rest (word_of_nat (length rest)) 1000)) < 0
               then - 1 else int_of_size_t (length (0 # rest)),
               [Control_transfer 0x21 0x09 0x200 (word_of_int (interface dev))
                  rest (word_of_nat (length rest)) 1000])) \<and>
         (0 < output_endpoint dev \<longrightarrow>
            hid_write usb dev (Some (0 # rest)) =
              (if res (usb (Interrupt_transfer (word_of_int (output_endpoint dev))
                              rest (int_of_size_t (length rest)) 1000)) < 0
               then - 1
               else actual_length (usb (Interrupt_transfer (word_of_int (output_endpoint dev))
                                          rest (int_of_size_t (length rest)) 1000)) + 1,
               [Interrupt_transfer (word_of_int (output_endpoint dev))
                  rest (int_of_size_t (length rest)) 1000])) \<and>
         (length rest < 2 ^ 16 \<longrightarrow>
            unat (word_of_nat (length rest) :: 16 word) = length rest \<and>
            int_of_size_t (length rest) = int (length rest) \<and>
            int_of_size_t (length (0 # rest)) = int (length (0 # rest))) \<and>
         (0 < output_endpoint dev \<and> length rest < 2 ^ 16 \<and>
          0 \<le> res (usb (Interrupt_transfer (word_of_int (output_endpoint dev))
                          rest (int (length rest)) 1000)) \<and>
          actual_length (usb (Interrupt_transfer (word_of_int (output_endpoint dev))
                                rest (int (length rest)) 1000)) = int (length rest) \<longrightarrow>
            fst (hid_write usb dev (Some (0 # rest))) = int (length (0 # rest)))"
proof (intro conjI impI; (elim conjE)?)
  assume "output_endpoint dev \<le> 0"
  with assms show "hid_write usb dev (Some (0 # rest)) =
              (if res (usb (Control_transfer 0x21 0x09 0x200 (word_of_int (interface dev))
                              rest (word_of_nat (length rest)) 1000)) < 0
               then - 1 else int_of_size_t (length (0 # rest)),
               [Control_transfer 0x21 0x09 0x200 (word_of_int (interface dev))
                  rest (word_of_nat (length rest)) 1000])"
    by (simp add: hid_write_def Let_def)
next
  assume "0 < output_endpoint dev"
  with assms show "hid_write usb dev (Some (0 # rest)) =
              (if res (usb (Interrupt_transfer (word_of_int (output_endpoint dev))
                              rest (int_of_size_t (length rest)) 1000)) < 0
               then - 1
               else actual_length (usb (Interrupt_transfer (word_of_int (output_endpoint dev))
                                          rest (int_of_size_t (length rest)) 1000)) + 1,
               [Interrupt_transfer (word_of_int (output_endpoint dev))
                  rest (int_of_size_t (length rest)) 1000])"
    by (simp add: hid_write_def Let_def)
next
  assume l: "length rest < 2 ^ 16"
  then show "unat (word_of_nat (length rest) :: 16 word) = length rest"
    by (simp add: unsigned_of_nat take_bit_nat_eq_self)
  from l have "length rest < 2 ^ 31" "length (0 # rest) < 2 ^ 31" by simp_all
  then show "int_of_size_t (length rest) = int (length rest)"
    "int_of_size_t (length (0 # rest)) = int (length (0 # rest))"
    by (simp_all only: int_of_size_t_small)
next
  assume e: "0 < output_endpoint dev" and l: "length rest < 2 ^ 16"
    and r: "0 \<le> res (usb (Interrupt_transfer (word_of_int (output_endpoint dev))
                          rest (int (length rest)) 1000))"
    and a: "actual_length (usb (Interrupt_transfer (word_of_int (output_endpoint dev))
                                rest (int (length rest)) 1000)) = int (length rest)"
  from l have "length rest < 2 ^ 31" by simp
  then have c: "int_of_size_t (length rest) = int (length rest)"
    by (rule int_of_size_t_small)
  from assms e r a show "fst (hid_write usb dev (Some (0 # rest))) = int (length (0 # rest))"
    by (simp add: hid_write_def Let_def c)
qed


text \<open>
  The write of \<open>00 01 02 03\<close> through a library that transfers everything returns 4 on
  both paths and carries \<open>01 02 03\<close>.
\<close>

theorem hid_write_strips_report_id_0_witness:
  "hid_write transfers_all fresh_device (Some [0, 1, 2, 3]) =
     (4, [Control_transfer 0x21 0x09 0x200 0 [1, 2, 3] 3 1000]) \<and>
   hid_write transfers_all (fresh_device\<lparr>output_endpoint := 1\<rparr>) (Some [0, 1, 2, 3]) =
     (4, [Interrupt_transfer 1 [1, 2, 3] 3 1000]) \<and>
   unat (word_of_nat (length [1, 2, 3 :: byte]) :: 16 word) = 3"
proof -
  have f: "\<not> skip_output_report_id fresh_device" "\<not> no_skip_output_report_id fresh_device"
    "\<not> no_output_reports_on_intr_ep fresh_device" "output_endpoint fresh_device \<le> 0"
    "interface fresh_device = 0"
    by (simp_all add: fresh_device_def)
  let ?dev = "fresh_device\<lparr>output_endpoint := 1\<rparr>"
  have g: "\<not> skip_output_report_id ?dev" "\<not> no_skip_output_report_id ?dev"
    "\<not> no_output_reports_on_intr_ep ?dev" "0 < output_endpoint ?dev"
    by (simp_all add: fresh_device_def)
  have l: "length [1, 2, 3 :: byte] < 2 ^ 16" by simp
  from hid_write_strips_report_id_0 [OF f(1-3), of transfers_all "[1, 2, 3]"] f(4,5) l
  have 1: "hid_write transfers_all fresh_device (Some [0, 1, 2, 3]) =
     (4, [Control_transfer 0x21 0x09 0x200 0 [1, 2, 3] 3 1000])"
    and 3: "unat (word_of_nat (length [1, 2, 3 :: byte]) :: 16 word) = 3"
    by (simp_all add: transfers_all_def int_of_size_t_def)
  from hid_write_strips_report_id_0 [OF g(1-3), of transfers_all "[1, 2, 3]"] g(4)
  have 2: "hid_write transfers_all ?dev (Some [0, 1, 2, 3]) =
     (4, [Interrupt_transfer 1 [1, 2, 3] 3 1000])"
    by (simp add: transfers_all_def int_of_size_t_def)
  from 1 2 3 show ?thesis by blast
qed

end
